theory Spec2Isabelle
  imports Complex_Main "HOL-Library.Product_Lexorder"
begin

section \<open>The search engine of \<open>movie_recommender.py\<close>\<close>

text \<open>
  The development embeds \<open>sanitize_query\<close> and \<open>find_matches\<close> of
  \<open>src/movie_recommender.py\<close> together with the Python built-ins they call.

  Conventions of the embedding.
  \<^item> A Python \<open>str\<close> is a \<open>string\<close>, one \<open>char\<close> per character, read as the code
    point of that number (U+0000 to U+00FF). The built-ins \<open>str.lower\<close>,
    \<open>str.isspace\<close>, \<open>str.isdigit\<close> and the regular-expression class \<open>\s\<close> are
    written out for that range.
  \<^item> An \<open>int\<close> is an \<open>int\<close>; a number that may be an \<open>int\<close> or a \<open>float\<close>
    (rating, box office, similarity score, \<open>min_rating\<close>) is a \<open>rat\<close>: the code only
    compares such numbers and truncates them with \<open>int()\<close>; NaN and infinities are
    outside the model.
  \<^item> An exception is a value \<open>Inl e\<close> of \<open>error + 'a\<close>.
  \<^item> The module globals \<open>movies\<close> and the logger are the fields of \<open>engine_state\<close>,
    passed in and returned.
\<close>

subsection \<open>Python values and exceptions\<close>

datatype error = TypeError | AttributeError | ValueError | IndexError

text \<open>
  A dynamically typed argument: \<open>None\<close>, a \<open>str\<close>, or a number (\<open>int\<close>, \<open>float\<close>
  or \<open>bool\<close>, which behaves as 0 or 1).
\<close>

datatype pyval = PNone | PStr string | PNum rat

text \<open>Truth value of an object in \<open>if x:\<close> and \<open>x or y\<close>.\<close>

fun truthy :: "pyval \<Rightarrow> bool" where
  "truthy PNone = False"
| "truthy (PStr s) = (s \<noteq> [])"
| "truthy (PNum r) = (r \<noteq> 0)"

subsection \<open>Built-ins on text\<close>

definition code_point :: "char \<Rightarrow> nat" where
  "code_point c = of_char c"

text \<open>The character class \<open>[\x00-\x1f\x7f-\x9f]\<close> of \<open>sanitize_query\<close>.\<close>

definition is_control :: "char \<Rightarrow> bool" where
  "is_control c = (code_point c \<le> 31 \<or> (127 \<le> code_point c \<and> code_point c \<le> 159))"

text \<open>
  \<open>str.isspace\<close> on one character, which is also what \<open>\s\<close> matches and what
  \<open>str.strip()\<close> and \<open>str.split()\<close> remove: TAB to CR, FS to US, space, NEL and
  the no-break space.
\<close>

definition isspace :: "char \<Rightarrow> bool" where
  "isspace c = ((9 \<le> code_point c \<and> code_point c \<le> 13)
     \<or> (28 \<le> code_point c \<and> code_point c \<le> 32)
     \<or> code_point c = 133 \<or> code_point c = 160)"

definition strip :: "string \<Rightarrow> string" where
  "strip s = rev (dropWhile isspace (rev (dropWhile isspace s)))"

text \<open>
  \<open>str.lower\<close>: the letters A to Z and the capital letters of U+00C0 to U+00DE
  (the multiplication sign U+00D7 apart) move up by 32.
\<close>

definition lower_char :: "char \<Rightarrow> char" where
  "lower_char c =
     (if (65 \<le> code_point c \<and> code_point c \<le> 90)
         \<or> (192 \<le> code_point c \<and> code_point c \<le> 222 \<and> code_point c \<noteq> 215)
      then char_of (code_point c + 32) else c)"

definition lower :: "string \<Rightarrow> string" where
  "lower s = map lower_char s"

definition is_ascii_digit :: "char \<Rightarrow> bool" where
  "is_ascii_digit c = (48 \<le> code_point c \<and> code_point c \<le> 57)"

text \<open>
  \<open>str.isdigit\<close>: the string is not empty and every character is a digit; besides
  0 to 9 the superscripts U+00B2, U+00B3 and U+00B9 count as digits.
\<close>

definition isdigit_char :: "char \<Rightarrow> bool" where
  "isdigit_char c = (is_ascii_digit c \<or> code_point c = 178 \<or> code_point c = 179
     \<or> code_point c = 185)"

definition isdigit :: "string \<Rightarrow> bool" where
  "isdigit s = (s \<noteq> [] \<and> list_all isdigit_char s)"

definition digits_value :: "string \<Rightarrow> int" where
  "digits_value s = foldl (\<lambda>a c. 10 * a + (int (code_point c) - 48)) 0 s"

text \<open>
  \<open>int(s)\<close> on a string for which \<open>isdigit\<close> holds (the only use in
  \<open>find_matches\<close>): decimal digits give their value, a superscript digit raises
  \<open>ValueError\<close>.
\<close>

definition int_of_digits :: "string \<Rightarrow> error + int" where
  "int_of_digits s =
     (if s \<noteq> [] \<and> list_all is_ascii_digit s then Inr (digits_value s) else Inl ValueError)"

text \<open>\<open>t in s\<close> and \<open>s.startswith(t)\<close> on strings.\<close>

definition startswith :: "string \<Rightarrow> string \<Rightarrow> bool" where
  "startswith s t = (take (length t) s = t)"

fun contains :: "string \<Rightarrow> string \<Rightarrow> bool" where
  "contains [] t = (t = [])"
| "contains (c # cs) t = (startswith (c # cs) t \<or> contains cs t)"

text \<open>
  The pieces between separators, empty pieces dropped: \<open>cur\<close> is the piece being
  read. With \<open>isspace\<close> this is \<open>s.split()\<close>; with \<open>is_sep\<close> it is
  \<open>[t for t in re.split(r'\s+|/|,', s) if t]\<close>.
\<close>

fun split_runs :: "(char \<Rightarrow> bool) \<Rightarrow> string \<Rightarrow> string \<Rightarrow> string list" where
  "split_runs sep cur [] = (if cur = [] then [] else [cur])"
| "split_runs sep cur (c # cs) =
     (if sep c then (if cur = [] then [] else [cur]) @ split_runs sep [] cs
      else split_runs sep (cur @ [c]) cs)"

definition is_sep :: "char \<Rightarrow> bool" where
  "is_sep c = (isspace c \<or> c = CHR ''/'' \<or> c = CHR '','')"

definition split_ws :: "string \<Rightarrow> string list" where
  "split_ws s = split_runs isspace [] s"

definition query_tokens :: "string \<Rightarrow> string list" where
  "query_tokens q = split_runs is_sep [] q"

subsection \<open>\<open>sanitize_query\<close>\<close>

definition sanitize_query :: "pyval \<Rightarrow> nat \<Rightarrow> error + string" where
  "sanitize_query q max_length =
     (case q of
        PStr s \<Rightarrow>
          (let q1 = strip (filter (\<lambda>c. \<not> is_control c) s)
           in Inr (if length q1 > max_length then take max_length q1 else q1))
      | _ \<Rightarrow> Inl TypeError)"

subsection \<open>Records, the module state and the arguments of a call\<close>

text \<open>
  A movie is a dictionary that passed \<open>validate_movie_schema\<close>, with text for
  genre and category: the six required keys are present, so every
  \<open>m.get(key, default)\<close> of \<open>find_matches\<close> returns the stored value. \<open>search_text\<close> is the optional cached key \<open>_search_text\<close> written by
  \<open>ensure_search_fields\<close>; \<open>find_matches\<close> never reads the other cached key
  \<open>_tokens\<close>.
\<close>

record movie =
  name :: string
  year :: int
  category :: string
  genre :: string
  box_office_millions :: rat
  rating :: rat
  search_text :: "string option"

text \<open>The module globals: the list \<open>movies\<close> and what the logger has recorded.\<close>

record engine_state =
  movies :: "movie list"
  log_lines :: "string list"

text \<open>
  The optional dependency. \<open>has_rapidfuzz\<close> is \<open>_HAS_RAPIDFUZZ\<close>, \<open>has_process\<close>
  says that \<open>rprocess\<close> is not \<open>None\<close>. \<open>partial_ratio q t\<close> is
  \<open>fuzz.partial_ratio(q, t)\<close> and \<open>process_extract q choices\<close> is
  \<open>rprocess.extract(q, choices, scorer=fuzz.partial_ratio, limit=len(choices))\<close>, a
  list of rows (choice, score, index); \<open>None\<close> stands for a raised exception.
\<close>

record fuzzy_env =
  has_rapidfuzz :: bool
  has_process :: bool
  partial_ratio :: "string \<Rightarrow> string \<Rightarrow> rat option"
  process_extract :: "string \<Rightarrow> string list \<Rightarrow> (string \<times> rat \<times> nat) list option"

text \<open>
  The parameters of \<open>find_matches\<close>. The filter parameters that share a name with
  a key of the movie dictionary carry the suffix \<open>_arg\<close>. The query and the six
  filters are dynamically typed; the other parameters have the type of their
  annotation (\<open>max_results\<close> may be \<open>None\<close>).
\<close>

record search_args =
  query_text :: pyval
  max_results :: "int option"
  enable_fuzzy :: bool
  fuzzy_threshold :: int
  genre_arg :: pyval
  category_arg :: pyval
  min_rating :: pyval
  year_arg :: pyval
  year_from :: pyval
  year_to :: pyval
  sort_by :: "string option"

definition DEFAULT_FUZZY_THRESHOLD :: int where
  "DEFAULT_FUZZY_THRESHOLD = 70"

definition FUZZY_MAX_CANDIDATES :: nat where
  "FUZZY_MAX_CANDIDATES = 250"

text \<open>The values the signature binds to parameters the caller leaves out.\<close>

definition default_args :: search_args where
  "default_args = \<lparr> query_text = PStr [], max_results = Some 50, enable_fuzzy = True,
     fuzzy_threshold = DEFAULT_FUZZY_THRESHOLD, genre_arg = PNone, category_arg = PNone,
     min_rating = PNone, year_arg = PNone, year_from = PNone, year_to = PNone,
     sort_by = None \<rparr>"

text \<open>The identity key \<open>(m.get('name'), m.get('year'))\<close>.\<close>

definition ident :: "movie \<Rightarrow> string \<times> int" where
  "ident m = (name m, year m)"

subsection \<open>The filter stage\<close>

text \<open>
  \<open>if genre:\<close> and \<open>if category:\<close>. The method call \<open>x.lower()\<close> comes before the
  comprehension and raises \<open>AttributeError\<close> on a number. \<open>fld1\<close> and \<open>fld2\<close> are
  the two fields in the order the comprehension tests them.
\<close>

definition text_filter :: "pyval \<Rightarrow> (movie \<Rightarrow> string) \<Rightarrow> (movie \<Rightarrow> string) \<Rightarrow> movie list
    \<Rightarrow> error + movie list" where
  "text_filter v fld1 fld2 movie_list =
     (if truthy v then
        (case v of
           PStr s \<Rightarrow>
             Inr (filter (\<lambda>m. contains (lower (fld1 m)) (lower s)
                              \<or> contains (lower (fld2 m)) (lower s)) movie_list)
         | _ \<Rightarrow> Inl AttributeError)
      else Inr movie_list)"

text \<open>
  \<open>x >= v\<close> and \<open>x <= v\<close> for a number \<open>x\<close> of a record: an order comparison of a
  number with a \<open>str\<close> raises \<open>TypeError\<close>. The comprehension evaluates the
  comparison for the first record already, so it raises as soon as the list is not
  empty.
\<close>

definition order_filter :: "pyval \<Rightarrow> (movie \<Rightarrow> rat \<Rightarrow> bool) \<Rightarrow> movie list \<Rightarrow> error + movie list"
  where
  "order_filter v keep movie_list =
     (case v of
        PNone \<Rightarrow> Inr movie_list
      | PNum r \<Rightarrow> Inr (filter (\<lambda>m. keep m r) movie_list)
      | PStr s \<Rightarrow> (if movie_list = [] then Inr [] else Inl TypeError))"

text \<open>\<open>m.get('year') == year\<close>: an \<open>int\<close> never equals a \<open>str\<close>, and nothing is raised.\<close>

definition year_filter :: "pyval \<Rightarrow> movie list \<Rightarrow> movie list" where
  "year_filter v movie_list =
     (case v of
        PNone \<Rightarrow> movie_list
      | PNum r \<Rightarrow> filter (\<lambda>m. of_int (year m) = r) movie_list
      | PStr s \<Rightarrow> filter (\<lambda>m. False) movie_list)"

definition bind_err :: "error + 'a \<Rightarrow> ('a \<Rightarrow> error + 'b) \<Rightarrow> error + 'b" where
  "bind_err x f = (case x of Inl e \<Rightarrow> Inl e | Inr v \<Rightarrow> f v)"

definition apply_filters :: "search_args \<Rightarrow> movie list \<Rightarrow> error + movie list" where
  "apply_filters a movie_list =
     bind_err (text_filter (genre_arg a) genre category movie_list) (\<lambda>l1.
     bind_err (text_filter (category_arg a) category genre l1) (\<lambda>l2.
     bind_err (order_filter (min_rating a) (\<lambda>m r. rating m \<ge> r) l2) (\<lambda>l3.
     bind_err (Inr (year_filter (year_arg a) l3)) (\<lambda>l4.
     bind_err (order_filter (year_from a) (\<lambda>m r. of_int (year m) \<ge> r) l4) (\<lambda>l5.
     order_filter (year_to a) (\<lambda>m r. of_int (year m) \<le> r) l5)))))"

text \<open>
  The test \<open>genre or category or min_rating is not None or year is not None or
  year_from is not None or year_to is not None\<close>.
\<close>

definition filters_given :: "search_args \<Rightarrow> bool" where
  "filters_given a = (truthy (genre_arg a) \<or> truthy (category_arg a) \<or> min_rating a \<noteq> PNone
     \<or> year_arg a \<noteq> PNone \<or> year_from a \<noteq> PNone \<or> year_to a \<noteq> PNone)"

subsection \<open>The tiered text matcher\<close>

text \<open>
  The body of the loop over \<open>movie_list\<close> in the token branch: the priority the
  record is appended with, or \<open>None\<close> when no tier matches it.
\<close>

definition tier_of :: "string list \<Rightarrow> movie \<Rightarrow> int option" where
  "tier_of tokens m =
     (let name_l = lower (name m); genre_v = lower (genre m); category_v = lower (category m)
      in if list_ex (\<lambda>t. contains name_l t \<or> contains genre_v t \<or> contains category_v t) tokens
         then Some 1000
         else if list_ex (\<lambda>t. startswith name_l t) tokens then Some 900
         else if list_ex (\<lambda>t. t \<in> set (split_ws name_l)) tokens then Some 800
         else None)"

definition tier_matches :: "string list \<Rightarrow> movie list \<Rightarrow> (movie \<times> int) list" where
  "tier_matches tokens movie_list =
     concat (map (\<lambda>m. case tier_of tokens m of None \<Rightarrow> [] | Some p \<Rightarrow> [(m, p)]) movie_list)"

text \<open>
  \<open>matches_with_priority\<close> before the fuzzy stage: filters alone, a numeric query,
  or the token tiers.
\<close>

definition text_matches :: "string \<Rightarrow> bool \<Rightarrow> movie list \<Rightarrow> error + (movie \<times> int) list" where
  "text_matches q_lower given movie_list =
     (if q_lower = [] \<and> given then Inr (map (\<lambda>m. (m, 1000)) movie_list)
      else if isdigit q_lower then
        bind_err (int_of_digits q_lower) (\<lambda>y.
          Inr (map (\<lambda>m. (m, 1000)) (filter (\<lambda>m. year m = y) movie_list)))
      else Inr (tier_matches (query_tokens q_lower) movie_list))"

subsection \<open>The fuzzy stage\<close>

text \<open>
  \<open>sorted(xs, key=key, reverse=True)\<close> and \<open>xs.sort(key=key, reverse=True)\<close>:
  descending by key, records with equal keys in their original order.
\<close>

definition sort_desc :: "('a \<Rightarrow> 'k::linorder) \<Rightarrow> 'a list \<Rightarrow> 'a list" where
  "sort_desc key xs = rev (sort_key key (rev xs))"

text \<open>
  \<open>m.get('_search_text', f"{name} {genre} {category}").lower()\<close>
\<close>

definition search_text_of :: "movie \<Rightarrow> string" where
  "search_text_of m =
     lower (case search_text m of
              Some s \<Rightarrow> s
            | None \<Rightarrow> name m @ '' '' @ genre m @ '' '' @ category m)"

definition candidate_subset :: "movie list \<Rightarrow> (movie \<times> int) list \<Rightarrow> movie list" where
  "candidate_subset movie_list matches =
     (let existing_keys = set (map (\<lambda>mp. ident (fst mp)) matches);
          candidates = filter (\<lambda>m. ident m \<notin> existing_keys) movie_list;
          candidates_sorted = sort_desc (\<lambda>x. (rating x, box_office_millions x)) candidates
      in take FUZZY_MAX_CANDIDATES candidates_sorted)"

text \<open>
  The loop over the rows of \<open>rprocess.extract\<close>. \<open>candidate_subset[idx]\<close> is read
  only for a row that clears the threshold and raises \<open>IndexError\<close> out of range.
\<close>

fun batch_scored :: "int \<Rightarrow> movie list \<Rightarrow> (string \<times> rat \<times> nat) list \<Rightarrow> error + (rat \<times> movie) list"
  where
  "batch_scored thr subset_c [] = Inr []"
| "batch_scored thr subset_c ((choice, score, idx) # rows) =
     (if score \<ge> of_int thr then
        (if idx < length subset_c then
           bind_err (batch_scored thr subset_c rows) (\<lambda>scored. Inr ((score, subset_c ! idx) # scored))
         else Inl IndexError)
      else batch_scored thr subset_c rows)"

text \<open>
  The loop without \<open>rprocess\<close>: one call of \<open>fuzz.partial_ratio\<close> per candidate, a
  raised exception counting as score 0.
\<close>

definition score_or_zero :: "fuzzy_env \<Rightarrow> string \<Rightarrow> movie \<Rightarrow> rat" where
  "score_or_zero env q_lower m =
     (case partial_ratio env q_lower (search_text_of m) of None \<Rightarrow> 0 | Some s \<Rightarrow> s)"

definition single_scored :: "fuzzy_env \<Rightarrow> string \<Rightarrow> int \<Rightarrow> movie list \<Rightarrow> (rat \<times> movie) list" where
  "single_scored env q_lower thr subset_c =
     concat (map (\<lambda>m. let score = score_or_zero env q_lower m
                       in if score \<ge> of_int thr then [(score, m)] else []) subset_c)"

text \<open>\<open>int(score)\<close>: truncation towards zero.\<close>

definition py_int :: "rat \<Rightarrow> int" where
  "py_int r = (if r \<ge> 0 then \<lfloor>r\<rfloor> else \<lceil>r\<rceil>)"

definition extract_failed :: string where
  "extract_failed = ''RapidFuzz process.extract failed; skipping fuzzy matching''"

text \<open>
  The list \<open>scored\<close> after the scoring loop, with the lines logged: the rows of
  \<open>rprocess.extract\<close> when \<open>rprocess\<close> is there (no rows, and a logged line, when
  the call raises), one call of \<open>fuzz.partial_ratio\<close> per candidate otherwise.
\<close>

definition fuzzy_scored :: "fuzzy_env \<Rightarrow> string \<Rightarrow> int \<Rightarrow> movie list
    \<Rightarrow> (error + (rat \<times> movie) list) \<times> string list" where
  "fuzzy_scored env q_lower thr subset_c =
     (if has_process env then
        (case process_extract env q_lower (map search_text_of subset_c) of
           None \<Rightarrow> (batch_scored thr subset_c [], [extract_failed])
         | Some results \<Rightarrow> (batch_scored thr subset_c results, []))
      else (Inr (single_scored env q_lower thr subset_c), []))"

text \<open>
  The body of \<open>if enable_fuzzy and _HAS_RAPIDFUZZ and q_lower:\<close>. The result is the
  list of pairs appended to \<open>matches_with_priority\<close> and the lines logged.
\<close>

definition fuzzy_matches :: "fuzzy_env \<Rightarrow> string \<Rightarrow> int \<Rightarrow> movie list \<Rightarrow> (movie \<times> int) list
    \<Rightarrow> (error + (movie \<times> int) list) \<times> string list" where
  "fuzzy_matches env q_lower thr movie_list matches =
     (let subset_c = candidate_subset movie_list matches;
          scored_logged = fuzzy_scored env q_lower thr subset_c
      in (bind_err (fst scored_logged) (\<lambda>scored.
            Inr (map (\<lambda>sm. (snd sm, py_int (fst sm)))
                   (sort_desc (\<lambda>x. (fst x, rating (snd x), box_office_millions (snd x))) scored))),
          snd scored_logged))"

definition collect_matches :: "fuzzy_env \<Rightarrow> search_args \<Rightarrow> string \<Rightarrow> movie list
    \<Rightarrow> (error + (movie \<times> int) list) \<times> string list" where
  "collect_matches env a q_lower movie_list =
     (case text_matches q_lower (filters_given a) movie_list of
        Inl e \<Rightarrow> (Inl e, [])
      | Inr matches \<Rightarrow>
          (if enable_fuzzy a \<and> has_rapidfuzz env \<and> q_lower \<noteq> [] then
             (case fuzzy_matches env q_lower (fuzzy_threshold a) movie_list matches of
                (Inl e, lg) \<Rightarrow> (Inl e, lg)
              | (Inr fm, lg) \<Rightarrow> (Inr (matches @ fm), lg))
           else (Inr matches, [])))"

subsection \<open>The result merger\<close>

text \<open>
  The dictionary \<open>best\<close>, in insertion order: an assignment to a key that is
  present keeps the key's place, a new key goes to the end.
\<close>

type_synonym best_map = "((string \<times> int) \<times> (int \<times> movie)) list"

fun dict_put :: "'k \<Rightarrow> 'v \<Rightarrow> ('k \<times> 'v) list \<Rightarrow> ('k \<times> 'v) list" where
  "dict_put k v [] = [(k, v)]"
| "dict_put k v (kv # kvs) = (if fst kv = k then (k, v) # kvs else kv # dict_put k v kvs)"

definition merge_step :: "best_map \<Rightarrow> movie \<times> int \<Rightarrow> best_map" where
  "merge_step best mp =
     (let key = ident (fst mp)
      in case map_of best key of
           None \<Rightarrow> dict_put key (snd mp, fst mp) best
         | Some pm \<Rightarrow> (if snd mp > fst pm then dict_put key (snd mp, fst mp) best else best))"

definition merge_best :: "(movie \<times> int) list \<Rightarrow> best_map" where
  "merge_best matches = foldl merge_step [] matches"

text \<open>\<open>_priority_of\<close>\<close>

definition priority_of :: "best_map \<Rightarrow> movie \<Rightarrow> int" where
  "priority_of best m = (case map_of best (ident m) of None \<Rightarrow> 0 | Some pm \<Rightarrow> fst pm)"

subsection \<open>Ranking and the cap\<close>

text \<open>
  The sort of \<open>ordered\<close>: by the explicit field when \<open>sort_by\<close> is given and known,
  by (priority, rating, box office) otherwise.
\<close>

definition rank :: "string option \<Rightarrow> best_map \<Rightarrow> movie list \<Rightarrow> movie list" where
  "rank sort_by_v best ordered =
     (case sort_by_v of
        None \<Rightarrow>
          sort_desc (\<lambda>x. (priority_of best x, rating x, box_office_millions x)) ordered
      | Some s \<Rightarrow>
          (if s \<noteq> [] then
             (let sb = lower s
              in if sb = ''rating'' then
                   sort_desc (\<lambda>x. (rating x, box_office_millions x, priority_of best x)) ordered
                 else if sb = ''box_office'' \<or> sb = ''box_office_millions'' then
                   sort_desc (\<lambda>x. (box_office_millions x, rating x, priority_of best x)) ordered
                 else if sb = ''year'' then
                   sort_desc (\<lambda>x. (year x, rating x, priority_of best x)) ordered
                 else
                   sort_desc (\<lambda>x. (priority_of best x, rating x, box_office_millions x))
                     ordered)
           else
             sort_desc (\<lambda>x. (priority_of best x, rating x, box_office_millions x)) ordered))"

text \<open>
  \<open>if max_results: return ordered[:max_results]\<close> and \<open>return ordered\<close>
  otherwise; a negative bound counts from the end of the list.
\<close>

definition cap :: "int option \<Rightarrow> 'a list \<Rightarrow> 'a list" where
  "cap max_results_v ordered =
     (case max_results_v of
        None \<Rightarrow> ordered
      | Some n \<Rightarrow>
          (if n = 0 then ordered
           else if n > 0 then take (nat n) ordered
           else take (nat (int (length ordered) + n)) ordered))"

subsection \<open>\<open>find_matches\<close>\<close>

text \<open>
  \<open>q_lower\<close>, or the exception of \<open>sanitize_query\<close> that the \<open>try\<close> of
  \<open>find_matches\<close> catches.
\<close>

definition query_lower :: "pyval \<Rightarrow> error + string" where
  "query_lower qt =
     bind_err (if qt \<noteq> PNone then sanitize_query qt 100 else Inr [])
       (\<lambda>q. Inr (if q \<noteq> [] then lower q else []))"

text \<open>The dictionary \<open>best\<close> of a call, from the snapshot \<open>list(movies)\<close>.\<close>

definition search_best :: "fuzzy_env \<Rightarrow> search_args \<Rightarrow> string \<Rightarrow> movie list
    \<Rightarrow> (error + best_map) \<times> string list" where
  "search_best env a q_lower snapshot =
     (case apply_filters a snapshot of
        Inl e \<Rightarrow> (Inl e, [])
      | Inr movie_list \<Rightarrow>
          (case collect_matches env a q_lower movie_list of
             (Inl e, lg) \<Rightarrow> (Inl e, lg)
           | (Inr matches, lg) \<Rightarrow> (Inr (merge_best matches), lg)))"

definition logged :: "engine_state \<Rightarrow> string list \<Rightarrow> engine_state" where
  "logged st lg = st\<lparr>log_lines := log_lines st @ lg\<rparr>"

definition find_matches :: "fuzzy_env \<Rightarrow> search_args \<Rightarrow> engine_state
    \<Rightarrow> (error + movie list) \<times> engine_state" where
  "find_matches env a st =
     (case query_lower (query_text a) of
        Inl e \<Rightarrow> (Inr [], st)
      | Inr q_lower \<Rightarrow>
          (case search_best env a q_lower (movies st) of
             (Inl e, lg) \<Rightarrow> (Inl e, logged st lg)
           | (Inr best, lg) \<Rightarrow>
               (Inr (cap (max_results a)
                       (rank (sort_by a) best (map (\<lambda>kv. snd (snd kv)) best))),
                logged st lg)))"

subsection \<open>Observations on a call\<close>

text \<open>
  The dictionary \<open>best\<close> that a call builds, empty when the call leaves before
  the merger.
\<close>

definition best_of :: "fuzzy_env \<Rightarrow> search_args \<Rightarrow> engine_state \<Rightarrow> best_map" where
  "best_of env a st =
     (case query_lower (query_text a) of
        Inl e \<Rightarrow> []
      | Inr q_lower \<Rightarrow>
          (case fst (search_best env a q_lower (movies st)) of Inl e \<Rightarrow> [] | Inr best \<Rightarrow> best))"

text \<open>
  The filter predicates in the words of the specification: each parameter that is
  present narrows the result, and the predicates are joined by conjunction. A
  value of the wrong type is satisfied by no record.
\<close>

definition text_pred :: "pyval \<Rightarrow> string \<Rightarrow> string \<Rightarrow> bool" where
  "text_pred v fld1 fld2 =
     (case v of
        PNone \<Rightarrow> True
      | PStr s \<Rightarrow> s = [] \<or> contains (lower fld1) (lower s) \<or> contains (lower fld2) (lower s)
      | PNum r \<Rightarrow> r = 0)"

definition num_pred :: "pyval \<Rightarrow> (rat \<Rightarrow> bool) \<Rightarrow> bool" where
  "num_pred v p = (case v of PNone \<Rightarrow> True | PNum r \<Rightarrow> p r | PStr s \<Rightarrow> False)"

definition satisfies_filters :: "search_args \<Rightarrow> movie \<Rightarrow> bool" where
  "satisfies_filters a m =
     (text_pred (genre_arg a) (genre m) (category m)
      \<and> text_pred (category_arg a) (category m) (genre m)
      \<and> num_pred (min_rating a) (\<lambda>r. rating m \<ge> r)
      \<and> num_pred (year_arg a) (\<lambda>r. of_int (year m) = r)
      \<and> num_pred (year_from a) (\<lambda>r. of_int (year m) \<ge> r)
      \<and> num_pred (year_to a) (\<lambda>r. of_int (year m) \<le> r))"

text \<open>
  The contract of the external scorer: every similarity score lies between 0 and
  100.
\<close>

definition scorer_in_range :: "fuzzy_env \<Rightarrow> bool" where
  "scorer_in_range env =
     ((\<forall>q t s. partial_ratio env q t = Some s \<longrightarrow> 0 \<le> s \<and> s \<le> 100)
      \<and> (\<forall>q cs rows c s i. process_extract env q cs = Some rows \<longrightarrow> (c, s, i) \<in> set rows
            \<longrightarrow> 0 \<le> s \<and> s \<le> 100))"

subsection \<open>A sample collection and sample scorers\<close>

text \<open>
  Four records of the built-in dataset and three records added with \<open>add_movie\<close>,
  each with the search text that \<open>ensure_search_fields\<close> caches for it.
\<close>

definition inception :: movie where
  "inception = \<lparr> name = ''Inception'', year = 2010, category = ''Prestige'',
     genre = ''Sci-Fi'', box_office_millions = 8299 / 10, rating = 88 / 10,
     search_text = Some ''inception sci-fi prestige'' \<rparr>"

definition social_network :: movie where
  "social_network = \<lparr> name = ''The Social Network'', year = 2010, category = ''Drama'',
     genre = ''Drama/Biography'', box_office_millions = 2249 / 10, rating = 77 / 10,
     search_text = Some ''the social network drama/biography drama'' \<rparr>"

definition toy_story :: movie where
  "toy_story = \<lparr> name = ''Toy Story'', year = 1995, category = ''Animation'',
     genre = ''Family/Animation'', box_office_millions = 3736 / 10, rating = 83 / 10,
     search_text = Some ''toy story family/animation animation'' \<rparr>"

definition shazam :: movie where
  "shazam = \<lparr> name = ''Shazam!'', year = 2019, category = ''Blockbuster'',
     genre = ''Family/Fantasy'', box_office_millions = 3646 / 10, rating = 71 / 10,
     search_text = Some ''shazam! family/fantasy blockbuster'' \<rparr>"

definition silent_dawn :: movie where
  "silent_dawn = \<lparr> name = ''Silent Dawn'', year = 2020, category = ''Indie'',
     genre = ''Drama'', box_office_millions = 10, rating = 7,
     search_text = Some ''silent dawn drama indie'' \<rparr>"

definition golden_dawn :: movie where
  "golden_dawn = \<lparr> name = ''Golden Dawn'', year = 2020, category = ''Indie'',
     genre = ''Drama'', box_office_millions = 20, rating = 7,
     search_text = Some ''golden dawn drama indie'' \<rparr>"

definition odyssey_two :: movie where
  "odyssey_two = \<lparr> name = ''2010: The Year We Make Contact'', year = 1984,
     category = ''Classic'', genre = ''Sci-Fi'', box_office_millions = 404 / 10,
     rating = 67 / 10,
     search_text = Some ''2010: the year we make contact sci-fi classic'' \<rparr>"

definition sample_state :: engine_state where
  "sample_state = \<lparr> movies = [silent_dawn, golden_dawn, inception, social_network,
     toy_story, shazam, odyssey_two], log_lines = [] \<rparr>"

text \<open>
  A collection of 51 records that differ in the year only, and a collection of
  two records with one identity (the same name and year) that differ in their
  category, and a third record.
\<close>

definition crowd :: "movie list" where
  "crowd = map (\<lambda>i. \<lparr> name = ''Dawn'', year = 1970 + int i, category = ''Indie'',
     genre = ''Drama'', box_office_millions = 1, rating = 6,
     search_text = Some ''dawn drama indie'' \<rparr>) [0..<51]"

definition crowd_state :: engine_state where
  "crowd_state = \<lparr> movies = crowd, log_lines = [] \<rparr>"

definition indie_dawn :: movie where
  "indie_dawn = \<lparr> name = ''Dawn'', year = 2021, category = ''Indie'',
     genre = ''Drama'', box_office_millions = 3, rating = 6,
     search_text = Some ''dawn drama indie'' \<rparr>"

definition indies_dawn :: movie where
  "indies_dawn = \<lparr> name = ''Dawn'', year = 2021, category = ''Indies'',
     genre = ''Drama'', box_office_millions = 2, rating = 6,
     search_text = Some ''dawn drama indies'' \<rparr>"

definition twin_state :: engine_state where
  "twin_state = \<lparr> movies = [indie_dawn, indies_dawn, silent_dawn], log_lines = [] \<rparr>"

text \<open>RapidFuzz is not installed.\<close>

definition env_off :: fuzzy_env where
  "env_off = \<lparr> has_rapidfuzz = False, has_process = False,
     partial_ratio = (\<lambda>q t. None), process_extract = (\<lambda>q cs. None) \<rparr>"

text \<open>
  A stand-in for \<open>fuzz.partial_ratio\<close>: 100 when the query occurs in the text, 70
  when the query without its last character does, 69 when the query without its
  last two characters does, and 0 otherwise.
\<close>

definition sample_ratio :: "string \<Rightarrow> string \<Rightarrow> rat" where
  "sample_ratio q t =
     (if contains t q then 100
      else if contains t (take (length q - 1) q) then 70
      else if contains t (take (length q - 2) q) then 69
      else 0)"

text \<open>RapidFuzz with \<open>fuzz\<close> only, and with \<open>process\<close> as well.\<close>

definition env_fuzz :: fuzzy_env where
  "env_fuzz = \<lparr> has_rapidfuzz = True, has_process = False,
     partial_ratio = (\<lambda>q t. Some (sample_ratio q t)), process_extract = (\<lambda>q cs. None) \<rparr>"

definition env_batch :: fuzzy_env where
  "env_batch = \<lparr> has_rapidfuzz = True, has_process = True,
     partial_ratio = (\<lambda>q t. Some (sample_ratio q t)),
     process_extract = (\<lambda>q cs. Some (map (\<lambda>ci. (fst ci, sample_ratio q (fst ci), snd ci))
                                        (zip cs [0..<length cs]))) \<rparr>"

section \<open>Properties\<close>

subsection \<open>Auxiliary facts\<close>

lemma logged_nil: "logged st [] = st"
  by (simp add: logged_def)

lemma movies_logged: "movies (logged st lg) = movies st"
  by (simp add: logged_def)

lemma sort_desc_nil: "sort_desc k [] = []"
  by (simp add: sort_desc_def)

lemma rank_nil: "rank sb best [] = []"
  by (simp add: rank_def sort_desc_nil Let_def split: option.split)

lemma cap_nil: "cap n [] = []"
  by (simp add: cap_def split: option.splits)

lemma query_lower_empty: "query_lower (PStr []) = Inr []" "query_lower PNone = Inr []"
  by (simp_all add: query_lower_def bind_err_def sanitize_query_def strip_def)

lemma query_lower_num: "query_lower (PNum r) = Inl TypeError"
  by (simp add: query_lower_def bind_err_def sanitize_query_def)

lemma apply_filters_none:
  "genre_arg a = PNone \<Longrightarrow> category_arg a = PNone \<Longrightarrow> min_rating a = PNone \<Longrightarrow>
   year_arg a = PNone \<Longrightarrow> year_from a = PNone \<Longrightarrow> year_to a = PNone \<Longrightarrow>
   apply_filters a ml = Inr ml"
  by (simp add: apply_filters_def bind_err_def text_filter_def order_filter_def year_filter_def)

lemma tier_matches_no_tokens: "tier_matches [] ml = []"
  by (induction ml) (simp_all add: tier_matches_def tier_of_def)

lemma text_matches_empty: "text_matches [] False ml = Inr []"
  by (simp add: text_matches_def isdigit_def query_tokens_def tier_matches_no_tokens)

lemma search_best_empty:
  assumes "genre_arg a = PNone" "category_arg a = PNone" "min_rating a = PNone"
    "year_arg a = PNone" "year_from a = PNone" "year_to a = PNone"
  shows "search_best env a [] ml = (Inr [], [])"
  using assms
  by (simp add: search_best_def apply_filters_none collect_matches_def filters_given_def
      text_matches_empty merge_best_def)

subsection \<open>Sorting, the cap and the merger\<close>

lemma set_sort_desc: "set (sort_desc k xs) = set xs"
  by (simp add: sort_desc_def)

lemma length_sort_desc: "length (sort_desc k xs) = length xs"
  by (simp add: sort_desc_def)

lemma distinct_map_sort_desc: "distinct (map f (sort_desc k xs)) = distinct (map f xs)"
  by (simp add: sort_desc_def distinct_map)

lemma sorted_sort_desc: "sorted_wrt (\<lambda>x y. k y \<le> k x) (sort_desc k xs)"
proof -
  have "sorted (map k (sort_key k (rev xs)))"
    by (rule sorted_sort_key)
  then have "sorted_wrt (\<lambda>x y. k x \<le> k y) (sort_key k (rev xs))"
    by (simp add: sorted_map)
  then show ?thesis
    by (simp add: sort_desc_def sorted_wrt_rev)
qed

lemma cap_take: "\<exists>j. cap n xs = take j xs"
proof (cases n)
  case None
  then have "cap n xs = take (length xs) xs" by (simp add: cap_def)
  then show ?thesis by blast
next
  case (Some i)
  then show ?thesis
    by (cases "i = 0") (auto simp: cap_def intro: exI [of _ "length xs"])
qed

lemma set_cap: "set (cap n xs) \<subseteq> set xs"
  using cap_take [of n xs] by (auto dest: in_set_takeD)

lemma sorted_wrt_cap: "sorted_wrt P xs \<Longrightarrow> sorted_wrt P (cap n xs)"
  using cap_take [of n xs] by auto

lemma distinct_map_cap: "distinct (map f xs) \<Longrightarrow> distinct (map f (cap n xs))"
  using cap_take [of n xs] by (auto simp: take_map [symmetric])

lemma map_of_dict_put: "map_of (dict_put k v al) = (map_of al)(k \<mapsto> v)"
  by (induction al) (auto simp: fun_eq_iff)

lemma keys_dict_put:
  "map fst (dict_put k v al) = (if k \<in> fst ` set al then map fst al else map fst al @ [k])"
  by (induction al) auto

lemma set_dict_put: "set (dict_put k v al) \<subseteq> insert (k, v) (set al)"
  by (induction al) auto

lemma distinct_dict_put: "distinct (map fst al) \<Longrightarrow> distinct (map fst (dict_put k v al))"
  by (simp add: keys_dict_put)

lemma merge_best_snoc: "merge_best (ms @ [x]) = merge_step (merge_best ms) x"
  by (simp add: merge_best_def)

lemma distinct_merge_step: "distinct (map fst best) \<Longrightarrow> distinct (map fst (merge_step best x))"
  by (simp add: merge_step_def Let_def distinct_dict_put split: option.splits)

lemma distinct_merge_best: "distinct (map fst (merge_best ms))"
proof (induction ms rule: rev_induct)
  case Nil
  show ?case by (simp add: merge_best_def)
next
  case (snoc x ms)
  then show ?case by (simp add: merge_best_snoc distinct_merge_step)
qed

lemma set_merge_step:
  "set (merge_step best x) \<subseteq> insert (ident (fst x), (snd x, fst x)) (set best)"
  using set_dict_put [of "ident (fst x)" "(snd x, fst x)" best]
  by (auto simp: merge_step_def Let_def split: option.splits)

lemma merge_best_sound:
  "(k, (p, m)) \<in> set (merge_best ms) \<Longrightarrow> ident m = k \<and> (m, p) \<in> set ms"
proof (induction ms arbitrary: k p m rule: rev_induct)
  case Nil
  then show ?case by (simp add: merge_best_def)
next
  case (snoc x ms)
  from snoc.prems have "(k, (p, m)) \<in> insert (ident (fst x), (snd x, fst x)) (set (merge_best ms))"
    using set_merge_step [of "merge_best ms" x] by (auto simp: merge_best_snoc)
  then show ?case
  proof
    assume "(k, (p, m)) = (ident (fst x), (snd x, fst x))"
    then show ?thesis by (cases x) auto
  next
    assume "(k, (p, m)) \<in> set (merge_best ms)"
    then show ?thesis using snoc.IH by auto
  qed
qed

lemma map_of_merge_step_other:
  "ident (fst x) \<noteq> k \<Longrightarrow> map_of (merge_step best x) k = map_of best k"
  by (simp add: merge_step_def Let_def map_of_dict_put split: option.splits)

lemma map_of_merge_step_same:
  "\<exists>pm. map_of (merge_step best x) (ident (fst x)) = Some pm \<and> snd x \<le> fst pm
     \<and> (\<forall>pm0. map_of best (ident (fst x)) = Some pm0 \<longrightarrow> fst pm0 \<le> fst pm)"
  by (auto simp: merge_step_def Let_def map_of_dict_put split: option.splits)

lemma merge_best_complete:
  "(m, p) \<in> set ms \<Longrightarrow> \<exists>pm. map_of (merge_best ms) (ident m) = Some pm \<and> p \<le> fst pm"
proof (induction ms rule: rev_induct)
  case Nil
  then show ?case by simp
next
  case (snoc x ms)
  obtain pm where pm: "map_of (merge_step (merge_best ms) x) (ident (fst x)) = Some pm"
    "snd x \<le> fst pm"
    "\<forall>pm0. map_of (merge_best ms) (ident (fst x)) = Some pm0 \<longrightarrow> fst pm0 \<le> fst pm"
    using map_of_merge_step_same [of "merge_best ms" x] by blast
  show ?case
  proof (cases "ident (fst x) = ident m")
    case same: True
    show ?thesis
    proof (cases "(m, p) \<in> set ms")
      case True
      then obtain pm0 where "map_of (merge_best ms) (ident m) = Some pm0" "p \<le> fst pm0"
        using snoc.IH by blast
      with pm same show ?thesis by (auto simp: merge_best_snoc)
    next
      case False
      with snoc.prems have "x = (m, p)" by simp
      with pm show ?thesis by (auto simp: merge_best_snoc)
    qed
  next
    case False
    with snoc.prems have "(m, p) \<in> set ms" by auto
    with snoc.IH False show ?thesis
      by (simp add: merge_best_snoc map_of_merge_step_other)
  qed
qed

subsection \<open>Every stage draws from the filtered list\<close>

lemma text_filter_Inr:
  "text_filter v f1 f2 ml = Inr ml' \<Longrightarrow> ml' = filter (\<lambda>m. text_pred v (f1 m) (f2 m)) ml"
  by (cases v) (auto simp: text_filter_def text_pred_def split: if_splits)

lemma order_filter_Inr:
  "order_filter v keep ml = Inr ml' \<Longrightarrow> ml' = filter (\<lambda>m. num_pred v (keep m)) ml"
  by (cases v) (auto simp: order_filter_def num_pred_def split: if_splits)

lemma year_filter_eq:
  "year_filter v ml = filter (\<lambda>m. num_pred v (\<lambda>r. of_int (year m) = r)) ml"
  by (cases v) (auto simp: year_filter_def num_pred_def)

lemma apply_filters_Inr:
  assumes "apply_filters a ml = Inr ml'"
  shows "ml' = filter (satisfies_filters a) ml"
proof -
  from assms obtain l1 l2 l3 l5 where
    s1: "text_filter (genre_arg a) genre category ml = Inr l1" and
    s2: "text_filter (category_arg a) category genre l1 = Inr l2" and
    s3: "order_filter (min_rating a) (\<lambda>m r. rating m \<ge> r) l2 = Inr l3" and
    s5: "order_filter (year_from a) (\<lambda>m r. of_int (year m) \<ge> r) (year_filter (year_arg a) l3) = Inr l5" and
    s6: "order_filter (year_to a) (\<lambda>m r. of_int (year m) \<le> r) l5 = Inr ml'"
    by (auto simp: apply_filters_def bind_err_def split: sum.splits)
  show ?thesis
    unfolding order_filter_Inr [OF s6] order_filter_Inr [OF s5] year_filter_eq
      order_filter_Inr [OF s3] text_filter_Inr [OF s2] text_filter_Inr [OF s1]
    by (auto simp: satisfies_filters_def intro: filter_cong)
qed

lemma tier_matches_subset: "(m, p) \<in> set (tier_matches tokens ml) \<Longrightarrow> m \<in> set ml"
  by (auto simp: tier_matches_def split: option.splits)

lemma text_matches_subset:
  "text_matches q g ml = Inr ms \<Longrightarrow> (m, p) \<in> set ms \<Longrightarrow> m \<in> set ml"
  by (auto simp: text_matches_def bind_err_def split: if_splits sum.splits
      dest: tier_matches_subset)

lemma candidate_subset_subset: "m \<in> set (candidate_subset ml ms) \<Longrightarrow> m \<in> set ml"
  by (auto simp: candidate_subset_def Let_def set_sort_desc dest!: in_set_takeD)

lemma batch_scored_subset:
  "batch_scored thr cs rows = Inr sc \<Longrightarrow> (s, m) \<in> set sc \<Longrightarrow> m \<in> set cs"
proof (induction thr cs rows arbitrary: sc rule: batch_scored.induct)
  case (1 thr cs)
  then show ?case by simp
next
  case (2 thr cs choice score idx rows)
  then show ?case
    by (auto simp: bind_err_def split: if_splits sum.splits)
qed

lemma single_scored_subset: "(s, m) \<in> set (single_scored env q thr cs) \<Longrightarrow> m \<in> set cs"
  by (auto simp: single_scored_def Let_def split: if_splits)

lemma fuzzy_scored_subset:
  "fst (fuzzy_scored env q thr cs) = Inr sc \<Longrightarrow> (s, m) \<in> set sc \<Longrightarrow> m \<in> set cs"
  by (auto simp: fuzzy_scored_def split: if_splits option.splits
      dest: batch_scored_subset single_scored_subset)

lemma fuzzy_matches_Inr:
  assumes "fuzzy_matches env q thr ml ms = (Inr fm, lg)"
  shows "\<exists>sc. fst (fuzzy_scored env q thr (candidate_subset ml ms)) = Inr sc
     \<and> fm = map (\<lambda>sm. (snd sm, py_int (fst sm)))
         (sort_desc (\<lambda>x. (fst x, rating (snd x), box_office_millions (snd x))) sc)"
  using assms
  by (auto simp: fuzzy_matches_def Let_def bind_err_def split: sum.splits)

lemma fuzzy_matches_subset:
  assumes "fuzzy_matches env q thr ml ms = (Inr fm, lg)" and "(m, p) \<in> set fm"
  shows "m \<in> set ml"
proof -
  from fuzzy_matches_Inr [OF assms(1)] obtain sc where
    sc: "fst (fuzzy_scored env q thr (candidate_subset ml ms)) = Inr sc" and
    fm: "fm = map (\<lambda>sm. (snd sm, py_int (fst sm)))
         (sort_desc (\<lambda>x. (fst x, rating (snd x), box_office_millions (snd x))) sc)"
    by blast
  from assms(2) obtain s where "(s, m) \<in> set sc"
    by (auto simp: fm set_sort_desc)
  then show ?thesis
    using fuzzy_scored_subset [OF sc] candidate_subset_subset by blast
qed

lemma collect_matches_subset:
  assumes "collect_matches env a q ml = (Inr ms, lg)" and "(m, p) \<in> set ms"
  shows "m \<in> set ml"
  using assms
  by (auto simp: collect_matches_def split: sum.splits if_splits prod.splits
      dest: text_matches_subset fuzzy_matches_subset)

subsection \<open>The result of a call\<close>

lemma set_rank: "set (rank sb best xs) = set xs"
  by (simp add: rank_def Let_def set_sort_desc split: option.split)

lemma length_rank: "length (rank sb best xs) = length xs"
  by (simp add: rank_def Let_def length_sort_desc split: option.split)

lemma distinct_map_rank: "distinct (map f (rank sb best xs)) = distinct (map f xs)"
  by (simp add: rank_def Let_def distinct_map_sort_desc split: option.split)

lemma find_matches_result:
  assumes "fst (find_matches env a st) = Inr rs"
  shows "rs = cap (max_results a)
           (rank (sort_by a) (best_of env a st) (map (\<lambda>kv. snd (snd kv)) (best_of env a st)))"
  using assms
  by (auto simp: find_matches_def best_of_def rank_nil cap_nil split: sum.splits prod.splits)

lemma search_best_Inr:
  assumes "fst (search_best env a q snapshot) = Inr best"
  shows "\<exists>ms lg. collect_matches env a q (filter (satisfies_filters a) snapshot) = (Inr ms, lg)
     \<and> best = merge_best ms"
proof -
  from assms obtain ml where ml: "apply_filters a snapshot = Inr ml"
    by (auto simp: search_best_def split: sum.splits)
  with assms show ?thesis
    using apply_filters_Inr [OF ml]
    by (auto simp: search_best_def split: sum.splits prod.splits)
qed

lemma best_of_cases:
  "best_of env a st = [] \<or>
   (\<exists>q ms lg. query_lower (query_text a) = Inr q
      \<and> collect_matches env a q (filter (satisfies_filters a) (movies st)) = (Inr ms, lg)
      \<and> best_of env a st = merge_best ms)"
proof (cases "query_lower (query_text a)")
  case (Inl e)
  then show ?thesis by (simp add: best_of_def)
next
  case (Inr q)
  show ?thesis
  proof (cases "fst (search_best env a q (movies st))")
    case (Inl e)
    with Inr show ?thesis by (simp add: best_of_def)
  next
    case best: (Inr best)
    from search_best_Inr [OF best] Inr best show ?thesis
      by (auto simp: best_of_def)
  qed
qed

lemma distinct_best_of: "distinct (map fst (best_of env a st))"
  using best_of_cases [of env a st] distinct_merge_best by auto

lemma best_of_entry:
  assumes "(k, (p, m)) \<in> set (best_of env a st)"
  shows "ident m = k \<and> m \<in> set (movies st) \<and> satisfies_filters a m"
proof -
  from assms best_of_cases [of env a st] obtain q ms lg where
    cm: "collect_matches env a q (filter (satisfies_filters a) (movies st)) = (Inr ms, lg)" and
    b: "best_of env a st = merge_best ms"
    by auto
  from assms b have "ident m = k" "(m, p) \<in> set ms"
    using merge_best_sound by auto
  with collect_matches_subset [OF cm] show ?thesis by auto
qed

lemma idents_best_of:
  "map ident (map (\<lambda>kv. snd (snd kv)) (best_of env a st)) = map fst (best_of env a st)"
proof -
  have "ident (snd (snd kv)) = fst kv" if "kv \<in> set (best_of env a st)" for kv
    using that best_of_entry [of "fst kv" "fst (snd kv)" "snd (snd kv)" env a st] by simp
  then show ?thesis by simp
qed

lemma find_matches_member:
  assumes "fst (find_matches env a st) = Inr rs" and "m \<in> set rs"
  shows "\<exists>k p. (k, (p, m)) \<in> set (best_of env a st)"
proof -
  let ?vals = "map (\<lambda>kv. snd (snd kv)) (best_of env a st)"
  have "set rs \<subseteq> set (rank (sort_by a) (best_of env a st) ?vals)"
    unfolding find_matches_result [OF assms(1)] by (rule set_cap)
  with assms(2) have "m \<in> set ?vals"
    by (auto simp: set_rank)
  then show ?thesis by force
qed

lemma results_satisfy_filters:
  assumes "fst (find_matches env a st) = Inr rs" and "m \<in> set rs"
  shows "m \<in> set (movies st) \<and> satisfies_filters a m"
  using find_matches_member [OF assms] best_of_entry by blast

lemma results_distinct:
  assumes "fst (find_matches env a st) = Inr rs"
  shows "distinct (map ident rs)"
proof -
  have "distinct (map ident (map (\<lambda>kv. snd (snd kv)) (best_of env a st)))"
    by (simp only: idents_best_of distinct_best_of)
  then show ?thesis
    unfolding find_matches_result [OF assms]
    by (intro distinct_map_cap) (simp only: distinct_map_rank)
qed

lemma apply_filters_max_results:
  "apply_filters (a\<lparr>max_results := x\<rparr>) ml = apply_filters a ml"
  by (simp add: apply_filters_def)

lemma apply_filters_sort_by:
  "apply_filters (a\<lparr>sort_by := y\<rparr>) ml = apply_filters a ml"
  by (simp add: apply_filters_def)

lemma filters_given_max_results: "filters_given (a\<lparr>max_results := x\<rparr>) = filters_given a"
  by (simp add: filters_given_def)

lemma filters_given_sort_by: "filters_given (a\<lparr>sort_by := y\<rparr>) = filters_given a"
  by (simp add: filters_given_def)

lemma collect_matches_max_results:
  "collect_matches env (a\<lparr>max_results := x\<rparr>) q ml = collect_matches env a q ml"
  by (cases "text_matches q (filters_given a) ml")
    (simp_all add: collect_matches_def filters_given_max_results)

lemma collect_matches_sort_by:
  "collect_matches env (a\<lparr>sort_by := y\<rparr>) q ml = collect_matches env a q ml"
  by (cases "text_matches q (filters_given a) ml")
    (simp_all add: collect_matches_def filters_given_sort_by)

lemma search_best_max_results:
  "search_best env (a\<lparr>max_results := x\<rparr>) q ml = search_best env a q ml"
  by (simp add: search_best_def apply_filters_max_results collect_matches_max_results
      split: sum.split)

lemma search_best_sort_by:
  "search_best env (a\<lparr>sort_by := y\<rparr>) q ml = search_best env a q ml"
  by (simp add: search_best_def apply_filters_sort_by collect_matches_sort_by
      split: sum.split)

lemma best_of_max_results: "best_of env (a\<lparr>max_results := x\<rparr>) st = best_of env a st"
  by (simp add: best_of_def search_best_max_results split: sum.split)

lemma best_of_sort_by: "best_of env (a\<lparr>sort_by := x\<rparr>) st = best_of env a st"
  by (simp add: best_of_def search_best_sort_by split: sum.split)

lemma find_matches_fst:
  "fst (find_matches env a st) =
     (case query_lower (query_text a) of
        Inl e \<Rightarrow> Inr []
      | Inr q \<Rightarrow>
          (case fst (search_best env a q (movies st)) of
             Inl e \<Rightarrow> Inl e
           | Inr best \<Rightarrow>
               Inr (cap (max_results a) (rank (sort_by a) best (map (\<lambda>kv. snd (snd kv)) best)))))"
  by (simp add: find_matches_def split: sum.splits prod.splits)

lemma find_matches_recap:
  assumes "fst (find_matches env (a\<lparr>max_results := None\<rparr>) st) = Inr full"
  shows "fst (find_matches env (a\<lparr>max_results := x\<rparr>) st) = Inr (cap x full)"
proof (cases "query_lower (query_text a)")
  case (Inl e)
  with assms show ?thesis by (simp add: find_matches_fst cap_nil)
next
  case (Inr q)
  with assms show ?thesis
    by (cases "fst (search_best env a q (movies st))")
      (simp_all add: find_matches_fst search_best_max_results cap_def)
qed

lemma length_uncapped:
  assumes "fst (find_matches env (a\<lparr>max_results := None\<rparr>) st) = Inr full"
  shows "length full = length (best_of env a st)"
  using find_matches_result [OF assms]
  by (simp add: cap_def length_rank best_of_max_results)


lemma lex3_fst: "(a, b, c) \<le> (a', b', c') \<Longrightarrow> a \<le> (a' :: 'a :: linorder)"
  by (auto simp: less_eq_prod_def)

lemma lex3_snd:
  "(a, b, c) \<le> (a', b', c') \<Longrightarrow> a = a' \<Longrightarrow> b \<le> (b' :: 'b :: linorder)"
  for a :: "'a :: linorder" and c :: "'c :: linorder"
  by (auto simp: less_eq_prod_def)

lemma lower_year: "lower ''year'' = ''year''"
  by (simp add: lower_def lower_char_def code_point_def)

lemma rank_year:
  "rank (Some ''year'') best xs = sort_desc (\<lambda>x. (year x, rating x, priority_of best x)) xs"
  by (simp add: rank_def lower_year)


subsection \<open>Filter errors, numeric queries and fuzzy scores\<close>

lemma apply_filters_min_rating:
  "apply_filters (a\<lparr>min_rating := v\<rparr>) ml =
     bind_err (text_filter (genre_arg a) genre category ml) (\<lambda>l1.
     bind_err (text_filter (category_arg a) category genre l1) (\<lambda>l2.
     bind_err (order_filter v (\<lambda>m r. rating m \<ge> r) l2) (\<lambda>l3.
     bind_err (Inr (year_filter (year_arg a) l3)) (\<lambda>l4.
     bind_err (order_filter (year_from a) (\<lambda>m r. of_int (year m) \<ge> r) l4) (\<lambda>l5.
     order_filter (year_to a) (\<lambda>m r. of_int (year m) \<le> r) l5)))))"
  by (simp add: apply_filters_def)

lemma find_matches_filter_error:
  assumes "query_lower (query_text a) = Inr q" and "apply_filters a (movies st) = Inl e"
  shows "find_matches env a st = (Inl e, st)"
  using assms by (simp add: find_matches_def search_best_def logged_nil)


lemma ascii_digit_facts:
  assumes "is_ascii_digit c"
  shows "\<not> is_control c" "\<not> isspace c" "lower_char c = c" "isdigit_char c"
  using assms
  by (auto simp: is_ascii_digit_def is_control_def isspace_def lower_char_def isdigit_char_def)

lemma strip_no_space:
  assumes "\<And>c. c \<in> set s \<Longrightarrow> \<not> isspace c"
  shows "strip s = s"
proof (cases s rule: rev_cases)
  case Nil
  then show ?thesis by (simp add: strip_def)
next
  case (snoc ys y)
  have front: "dropWhile isspace s = s"
    using assms by (cases s) simp_all
  have "\<not> isspace y"
    using assms snoc by simp
  then have "dropWhile isspace (rev s) = rev s"
    using snoc by simp
  with front show ?thesis by (simp add: strip_def)
qed

lemma query_lower_digits:
  assumes "list_all is_ascii_digit q" and "length q \<le> 100"
  shows "query_lower (PStr q) = Inr q"
proof -
  from assms(1) have d: "\<And>c. c \<in> set q \<Longrightarrow> is_ascii_digit c"
    by (simp add: list_all_iff)
  have "filter (\<lambda>c. \<not> is_control c) q = q"
    using d by (simp add: ascii_digit_facts filter_id_conv)
  moreover have "strip q = q"
    using d by (intro strip_no_space) (simp add: ascii_digit_facts)
  moreover have "lower q = q"
    using d by (simp add: lower_def ascii_digit_facts map_idI)
  ultimately show ?thesis
    using assms(2) by (simp add: query_lower_def sanitize_query_def bind_err_def)
qed

lemma text_matches_digits:
  assumes "q \<noteq> []" and "list_all is_ascii_digit q"
  shows "text_matches q g ml
     = Inr (map (\<lambda>m. (m, 1000)) (filter (\<lambda>m. year m = digits_value q) ml))"
proof -
  from assms have "isdigit q"
    by (auto simp: isdigit_def list_all_iff ascii_digit_facts)
  with assms show ?thesis
    by (simp add: text_matches_def int_of_digits_def bind_err_def)
qed

lemma merge_best_lookup:
  assumes "(k, (p, m)) \<in> set (merge_best ms)"
  shows "map_of (merge_best ms) k = Some (p, m)"
  using assms distinct_merge_best by simp

lemma merge_best_idents:
  "ident ` (\<lambda>kv. snd (snd kv)) ` set (merge_best ms) = ident ` fst ` set ms"
proof (intro set_eqI iffI)
  fix k
  assume "k \<in> ident ` (\<lambda>kv. snd (snd kv)) ` set (merge_best ms)"
  then obtain k' p m where "(k', (p, m)) \<in> set (merge_best ms)" "k = ident m"
    by auto
  then have "(m, p) \<in> set ms" "k = ident (fst (m, p))"
    using merge_best_sound by auto
  then show "k \<in> ident ` fst ` set ms"
    by blast
next
  fix k
  assume "k \<in> ident ` fst ` set ms"
  then obtain m p where mp: "(m, p) \<in> set ms" "k = ident m"
    by auto
  from merge_best_complete [OF mp(1)] obtain pm where
    "map_of (merge_best ms) (ident m) = Some pm" by blast
  then have e: "(ident m, (fst pm, snd pm)) \<in> set (merge_best ms)"
    by (auto dest: map_of_SomeD)
  then have "ident (snd pm) = ident m"
    using merge_best_sound by blast
  moreover from e have "snd pm \<in> (\<lambda>kv. snd (snd kv)) ` set (merge_best ms)"
    by force
  ultimately show "k \<in> ident ` (\<lambda>kv. snd (snd kv)) ` set (merge_best ms)"
    using mp(2) by (metis imageI)
qed


lemma set_single_scored:
  "set (single_scored env q thr cs)
     = (\<lambda>m. (score_or_zero env q m, m)) ` {m \<in> set cs. of_int thr \<le> score_or_zero env q m}"
  by (auto simp: single_scored_def Let_def)

lemma set_batch_scored:
  "batch_scored thr cs rows = Inr sc \<Longrightarrow>
   set sc = (\<lambda>row. (fst (snd row), cs ! snd (snd row)))
              ` {row \<in> set rows. of_int thr \<le> fst (snd row)}"
proof (induction thr cs rows arbitrary: sc rule: batch_scored.induct)
  case (1 thr cs)
  then show ?case by simp
next
  case (2 thr cs choice score idx rows)
  show ?case
  proof (cases "of_int thr \<le> score")
    case True
    with "2.prems" obtain sc' where sc': "batch_scored thr cs rows = Inr sc'"
      "sc = (score, cs ! idx) # sc'" "idx < length cs"
      by (auto simp: bind_err_def split: if_splits sum.splits)
    have split: "{row \<in> set ((choice, score, idx) # rows). of_int thr \<le> fst (snd row)}
        = insert (choice, score, idx) {row \<in> set rows. of_int thr \<le> fst (snd row)}"
      using True by auto
    from "2.IH"(1) [OF True sc'(3) sc'(1)] show ?thesis
      unfolding split sc'(2) by simp
  next
    case False
    with "2.prems" have "batch_scored thr cs rows = Inr sc" by simp
    from "2.IH"(2) [OF False this] False show ?thesis by auto
  qed
qed

lemma py_int_of_int: "py_int (of_int k) = k"
  by (simp add: py_int_def)

lemma py_int_ge: "of_int thr \<le> s \<Longrightarrow> thr \<le> py_int s"
  by (simp add: py_int_def le_floor_iff le_ceiling_iff)

lemma py_int_range: "0 \<le> s \<Longrightarrow> s \<le> 100 \<Longrightarrow> 0 \<le> py_int s \<and> py_int s \<le> 100"
  by (simp add: py_int_def floor_le_iff)

lemma fuzzy_scored_range:
  assumes "fst (fuzzy_scored env q thr cs) = Inr sc" and "(s, m) \<in> set sc"
  shows "of_int thr \<le> s \<and> (scorer_in_range env \<longrightarrow> 0 \<le> s \<and> s \<le> 100)"
proof (cases "has_process env")
  case False
  with assms have "(s, m) \<in> set (single_scored env q thr cs)"
    by (simp add: fuzzy_scored_def)
  then have s: "s = score_or_zero env q m" "of_int thr \<le> s"
    by (auto simp: set_single_scored)
  have "0 \<le> s \<and> s \<le> 100" if "scorer_in_range env"
    using that s(1)
    by (cases "partial_ratio env q (search_text_of m)")
      (auto simp: score_or_zero_def scorer_in_range_def)
  with s show ?thesis by blast
next
  case True
  show ?thesis
  proof (cases "process_extract env q (map search_text_of cs)")
    case None
    with True assms show ?thesis by (simp add: fuzzy_scored_def)
  next
    case (Some rows)
    with True assms have "batch_scored thr cs rows = Inr sc"
      by (simp add: fuzzy_scored_def)
    from set_batch_scored [OF this] assms(2) obtain c i where
      row: "(c, s, i) \<in> set rows" "of_int thr \<le> s"
      by auto
    have "0 \<le> s \<and> s \<le> 100" if "scorer_in_range env"
      using that Some row(1) unfolding scorer_in_range_def by blast
    with row show ?thesis by blast
  qed
qed


lemma scorer_in_range_env_fuzz: "scorer_in_range env_fuzz"
  by (simp add: scorer_in_range_def env_fuzz_def sample_ratio_def)

lemma scorer_in_range_env_batch: "scorer_in_range env_batch"
  by (auto simp: scorer_in_range_def env_batch_def sample_ratio_def)

subsection \<open>The stages of a call\<close>

text \<open>
  What the fuzzy stage appends, how the pairs collected reach the dictionary
  \<open>best\<close> and the returned list, and when a call returns normally.
\<close>

lemma candidate_subset_fresh:
  assumes "m \<in> set (candidate_subset ml ms)" and "(m', p') \<in> set ms"
  shows "ident m' \<noteq> ident m"
proof -
  let ?keys = "set (map (\<lambda>mp. ident (fst mp)) ms)"
  let ?cands = "filter (\<lambda>m. ident m \<notin> ?keys) ml"
  have "set (candidate_subset ml ms)
      \<subseteq> set (sort_desc (\<lambda>x. (rating x, box_office_millions x)) ?cands)"
    unfolding candidate_subset_def Let_def by (rule set_take_subset)
  with assms(1) have "m \<in> set ?cands"
    by (auto simp only: set_sort_desc)
  then have out: "ident m \<notin> ?keys" by simp
  have "ident (fst (m', p')) \<in> (\<lambda>mp. ident (fst mp)) ` set ms"
    using assms(2) by (rule imageI)
  then have inn: "ident m' \<in> ?keys"
    by (simp only: set_map fst_conv)
  show ?thesis
  proof
    assume "ident m' = ident m"
    with inn have "ident m \<in> ?keys" by (simp only:)
    with out show False by (rule notE)
  qed
qed

lemma fuzzy_matches_member:
  assumes "fuzzy_matches env q thr ml ms = (Inr fm, lg)" and "(m, p) \<in> set fm"
  shows "m \<in> set (candidate_subset ml ms) \<and> thr \<le> p
     \<and> (scorer_in_range env \<longrightarrow> 0 \<le> p \<and> p \<le> 100)"
proof -
  from fuzzy_matches_Inr [OF assms(1)] obtain sc where
    sc: "fst (fuzzy_scored env q thr (candidate_subset ml ms)) = Inr sc" and
    fm: "fm = map (\<lambda>sm. (snd sm, py_int (fst sm)))
         (sort_desc (\<lambda>x. (fst x, rating (snd x), box_office_millions (snd x))) sc)"
    by blast
  from assms(2) obtain s where s: "(s, m) \<in> set sc" "p = py_int s"
    by (auto simp: fm set_sort_desc)
  from fuzzy_scored_range [OF sc s(1)] have
    r: "of_int thr \<le> s" "scorer_in_range env \<longrightarrow> 0 \<le> s \<and> s \<le> 100"
    by blast+
  have "m \<in> set (candidate_subset ml ms)"
    using fuzzy_scored_subset [OF sc s(1)] .
  moreover have "thr \<le> p"
    using r(1) by (simp add: s(2) py_int_ge)
  moreover have "scorer_in_range env \<longrightarrow> 0 \<le> p \<and> p \<le> 100"
    using r(2) py_int_range [of s] by (simp add: s(2))
  ultimately show ?thesis by blast
qed

lemma collect_matches_Inr:
  assumes "collect_matches env a q ml = (Inr collected, lg)"
  shows "\<exists>ms. text_matches q (filters_given a) ml = Inr ms
     \<and> ((\<not> (enable_fuzzy a \<and> has_rapidfuzz env \<and> q \<noteq> []) \<and> collected = ms)
        \<or> (enable_fuzzy a \<and> has_rapidfuzz env \<and> q \<noteq> []
           \<and> (\<exists>fm. fuzzy_matches env q (fuzzy_threshold a) ml ms = (Inr fm, lg)
                 \<and> collected = ms @ fm)))"
proof (cases "text_matches q (filters_given a) ml")
  case (Inl e)
  with assms show ?thesis by (simp add: collect_matches_def)
next
  case (Inr ms)
  show ?thesis
  proof (cases "enable_fuzzy a \<and> has_rapidfuzz env \<and> q \<noteq> []")
    case False
    with assms Inr show ?thesis by (auto simp: collect_matches_def)
  next
    case True
    obtain r lg' where f: "fuzzy_matches env q (fuzzy_threshold a) ml ms = (r, lg')"
      by (cases "fuzzy_matches env q (fuzzy_threshold a) ml ms") auto
    with assms Inr True show ?thesis
      by (cases r) (auto simp: collect_matches_def)
  qed
qed

lemma find_matches_anatomy:
  assumes "query_lower (query_text a) = Inr q" and "apply_filters a (movies st) = Inr ml"
    and "fst (find_matches env a st) = Inr rs"
  shows "\<exists>collected lg. collect_matches env a q ml = (Inr collected, lg)
     \<and> best_of env a st = merge_best collected
     \<and> rs = cap (max_results a) (rank (sort_by a) (merge_best collected)
               (map (\<lambda>kv. snd (snd kv)) (merge_best collected)))"
proof -
  obtain r lg where c: "collect_matches env a q ml = (r, lg)"
    by (cases "collect_matches env a q ml") auto
  show ?thesis
  proof (cases r)
    case (Inl e)
    with assms c show ?thesis
      by (simp add: find_matches_fst search_best_def)
  next
    case (Inr collected)
    with assms c have "best_of env a st = merge_best collected"
      by (simp add: best_of_def search_best_def)
    moreover from assms c Inr have "rs = cap (max_results a) (rank (sort_by a) (merge_best collected)
               (map (\<lambda>kv. snd (snd kv)) (merge_best collected)))"
      by (simp add: find_matches_fst search_best_def)
    ultimately show ?thesis using c Inr by blast
  qed
qed

lemma ranked_member:
  assumes "m \<in> set (cap x (rank sb (merge_best collected)
               (map (\<lambda>kv. snd (snd kv)) (merge_best collected))))"
  shows "\<exists>p. (m, p) \<in> set collected \<and> priority_of (merge_best collected) m = p"
proof -
  let ?best = "merge_best collected"
  let ?vals = "map (\<lambda>kv. snd (snd kv)) ?best"
  have "set (cap x (rank sb ?best ?vals)) \<subseteq> set (rank sb ?best ?vals)"
    by (rule set_cap)
  with assms have "m \<in> set ?vals" by (auto simp: set_rank)
  then obtain k p where kp: "(k, (p, m)) \<in> set ?best" by force
  then have "ident m = k" "(m, p) \<in> set collected"
    using merge_best_sound by blast+
  moreover from kp have "map_of ?best k = Some (p, m)"
    by (rule merge_best_lookup)
  ultimately show ?thesis
    by (auto simp: priority_of_def)
qed

lemma uncapped_idents:
  assumes "x = None \<or> x = Some 0"
  shows "ident ` set (cap x (rank sb (merge_best collected)
               (map (\<lambda>kv. snd (snd kv)) (merge_best collected))))
     = ident ` fst ` set collected"
proof -
  let ?best = "merge_best collected"
  let ?vals = "map (\<lambda>kv. snd (snd kv)) ?best"
  from assms have "cap x (rank sb ?best ?vals) = rank sb ?best ?vals"
    by (auto simp: cap_def)
  then have "set (cap x (rank sb ?best ?vals)) = (\<lambda>kv. snd (snd kv)) ` set ?best"
    by (simp only: set_rank set_map)
  then show ?thesis
    by (simp only: merge_best_idents)
qed


lemma batch_scored_total:
  "(\<forall>c s i. (c, s, i) \<in> set rows \<longrightarrow> i < length cs)
   \<Longrightarrow> \<exists>sc. batch_scored thr cs rows = Inr sc"
proof (induction rows)
  case Nil
  show ?case by simp
next
  case (Cons row rows)
  obtain c s i where row: "row = (c, s, i)" by (cases row) auto
  from Cons.prems have "\<forall>c s i. (c, s, i) \<in> set rows \<longrightarrow> i < length cs" by simp
  from Cons.IH [OF this] obtain sc where sc: "batch_scored thr cs rows = Inr sc" by blast
  from Cons.prems row have "i < length cs" by simp
  with sc show ?case by (simp add: row bind_err_def)
qed

lemma fuzzy_matches_returns:
  assumes "has_process env \<longrightarrow>
     (\<forall>rows c s i. process_extract env q (map search_text_of (candidate_subset ml ms)) = Some rows
         \<and> (c, s, i) \<in> set rows \<longrightarrow> i < length (candidate_subset ml ms))"
  shows "\<exists>fm lg. fuzzy_matches env q thr ml ms = (Inr fm, lg)"
proof -
  let ?cs = "candidate_subset ml ms"
  have "\<exists>sc. fst (fuzzy_scored env q thr ?cs) = Inr sc"
  proof (cases "has_process env")
    case False
    then show ?thesis by (simp add: fuzzy_scored_def)
  next
    case True
    show ?thesis
    proof (cases "process_extract env q (map search_text_of ?cs)")
      case None
      with True show ?thesis by (simp add: fuzzy_scored_def)
    next
      case (Some rows)
      with True assms have "\<forall>c s i. (c, s, i) \<in> set rows \<longrightarrow> i < length ?cs" by blast
      from batch_scored_total [OF this] obtain sc where "batch_scored thr ?cs rows = Inr sc"
        by blast
      with True Some show ?thesis by (simp add: fuzzy_scored_def)
    qed
  qed
  then obtain sc where "fst (fuzzy_scored env q thr ?cs) = Inr sc" by blast
  then show ?thesis
    by (simp add: fuzzy_matches_def Let_def bind_err_def)
qed

lemma find_matches_returns:
  assumes "query_lower (query_text a) = Inr q" and "apply_filters a (movies st) = Inr ml"
    and "text_matches q (filters_given a) ml = Inr ms"
    and "has_process env \<longrightarrow>
     (\<forall>rows c s i. process_extract env q (map search_text_of (candidate_subset ml ms)) = Some rows
         \<and> (c, s, i) \<in> set rows \<longrightarrow> i < length (candidate_subset ml ms))"
  shows "\<exists>rs lg. find_matches env a st = (Inr rs, logged st lg)"
proof -
  from fuzzy_matches_returns [OF assms(4)] obtain fm lg where
    fz: "fuzzy_matches env q (fuzzy_threshold a) ml ms = (Inr fm, lg)"
    by blast
  have "\<exists>collected lg. collect_matches env a q ml = (Inr collected, lg)"
    by (simp add: collect_matches_def assms(3) fz)
  then obtain collected lg' where "collect_matches env a q ml = (Inr collected, lg')"
    by blast
  then have "search_best env a q (movies st) = (Inr (merge_best collected), lg')"
    by (simp add: search_best_def assms(2))
  then have "find_matches env a st
      = (Inr (cap (max_results a) (rank (sort_by a) (merge_best collected)
                 (map (\<lambda>kv. snd (snd kv)) (merge_best collected)))), logged st lg')"
    by (simp add: find_matches_def assms(1))
  then show ?thesis by blast
qed

lemma env_batch_rows_in_range:
  "process_extract env_batch q cs = Some rows \<Longrightarrow> (c, s, i) \<in> set rows \<Longrightarrow> i < length cs"
  by (auto simp: env_batch_def in_set_zip)

lemma text_matches_priority:
  "text_matches q g ml = Inr ms \<Longrightarrow> (m, p) \<in> set ms \<Longrightarrow> p = 1000 \<or> p = 900 \<or> p = 800"
  by (auto simp: text_matches_def bind_err_def tier_matches_def tier_of_def Let_def
      split: if_splits sum.splits option.splits)

lemma batch_scored_index:
  "batch_scored thr cs rows = Inr sc \<Longrightarrow> (c, s, i) \<in> set rows \<Longrightarrow> of_int thr \<le> s
   \<Longrightarrow> i < length cs"
proof (induction thr cs rows arbitrary: sc rule: batch_scored.induct)
  case (1 thr cs)
  then show ?case by simp
next
  case (2 thr cs choice score idx rows)
  show ?case
  proof (cases "of_int thr \<le> score")
    case True
    with "2.prems"(1) obtain sc' where sc': "batch_scored thr cs rows = Inr sc'"
      "idx < length cs"
      by (auto simp: bind_err_def split: if_splits sum.splits)
    from "2.prems"(2) have "(c, s, i) = (choice, score, idx) \<or> (c, s, i) \<in> set rows"
      by simp
    then show ?thesis
    proof
      assume "(c, s, i) = (choice, score, idx)"
      with sc'(2) show ?thesis by simp
    next
      assume "(c, s, i) \<in> set rows"
      from "2.IH"(1) [OF True sc'(2) sc'(1) this "2.prems"(3)] show ?thesis .
    qed
  next
    case False
    with "2.prems"(1) have b: "batch_scored thr cs rows = Inr sc" by simp
    from "2.prems"(2,3) False have "(c, s, i) \<in> set rows" by auto
    from "2.IH"(2) [OF False b this "2.prems"(3)] show ?thesis .
  qed
qed

lemma fuzzy_matches_fallback:
  assumes "fuzzy_matches env q thr ml ms = (Inr fm, lg)" and "\<not> has_process env"
  shows "set fm = (\<lambda>m. (m, py_int (score_or_zero env q m)))
                       ` {m \<in> set (candidate_subset ml ms). of_int thr \<le> score_or_zero env q m}"
proof -
  from fuzzy_matches_Inr [OF assms(1)] obtain sc where
    sc: "fst (fuzzy_scored env q thr (candidate_subset ml ms)) = Inr sc" and
    fm: "fm = map (\<lambda>sm. (snd sm, py_int (fst sm)))
         (sort_desc (\<lambda>x. (fst x, rating (snd x), box_office_millions (snd x))) sc)"
    by blast
  from assms(2) sc have "sc = single_scored env q thr (candidate_subset ml ms)"
    by (simp add: fuzzy_scored_def)
  then show ?thesis
    by (simp add: fm set_sort_desc set_single_scored image_image)
qed

lemma fuzzy_matches_batch:
  assumes "fuzzy_matches env q thr ml ms = (Inr fm, lg)" and "has_process env"
    and "process_extract env q (map search_text_of (candidate_subset ml ms)) = Some rows"
  shows "set fm = (\<lambda>row. (candidate_subset ml ms ! snd (snd row), py_int (fst (snd row))))
                       ` {row \<in> set rows. of_int thr \<le> fst (snd row)}"
    and "\<forall>c s i. (c, s, i) \<in> set rows \<and> of_int thr \<le> s
           \<longrightarrow> i < length (candidate_subset ml ms)"
proof -
  from fuzzy_matches_Inr [OF assms(1)] obtain sc where
    sc: "fst (fuzzy_scored env q thr (candidate_subset ml ms)) = Inr sc" and
    fm: "fm = map (\<lambda>sm. (snd sm, py_int (fst sm)))
         (sort_desc (\<lambda>x. (fst x, rating (snd x), box_office_millions (snd x))) sc)"
    by blast
  from assms(2,3) sc have b: "batch_scored thr (candidate_subset ml ms) rows = Inr sc"
    by (simp add: fuzzy_scored_def)
  from set_batch_scored [OF b] show "set fm
      = (\<lambda>row. (candidate_subset ml ms ! snd (snd row), py_int (fst (snd row))))
                       ` {row \<in> set rows. of_int thr \<le> fst (snd row)}"
    by (simp add: fm set_sort_desc image_image)
  show "\<forall>c s i. (c, s, i) \<in> set rows \<and> of_int thr \<le> s
           \<longrightarrow> i < length (candidate_subset ml ms)"
    using batch_scored_index [OF b] by blast
qed

lemma fuzzy_matches_no_rows:
  assumes "fuzzy_matches env q thr ml ms = (Inr fm, lg)" and "has_process env"
    and "process_extract env q (map search_text_of (candidate_subset ml ms)) = None"
  shows "fm = []"
proof -
  from fuzzy_matches_Inr [OF assms(1)] obtain sc where
    sc: "fst (fuzzy_scored env q thr (candidate_subset ml ms)) = Inr sc" and
    fm: "fm = map (\<lambda>sm. (snd sm, py_int (fst sm)))
         (sort_desc (\<lambda>x. (fst x, rating (snd x), box_office_millions (snd x))) sc)"
    by blast
  from assms(2,3) sc have "sc = []"
    by (simp add: fuzzy_scored_def)
  then show ?thesis by (simp add: fm sort_desc_nil)
qed

lemma merged_entry:
  assumes "(m, p) \<in> set collected"
  shows "\<exists>pm. map_of (merge_best collected) (ident m) = Some pm \<and> p \<le> fst pm
     \<and> (snd pm, fst pm) \<in> set collected \<and> ident (snd pm) = ident m"
proof -
  from merge_best_complete [OF assms] obtain pm where
    pm: "map_of (merge_best collected) (ident m) = Some pm" "p \<le> fst pm"
    by blast
  then have "(ident m, (fst pm, snd pm)) \<in> set (merge_best collected)"
    by (auto dest: map_of_SomeD)
  then have "ident (snd pm) = ident m \<and> (snd pm, fst pm) \<in> set collected"
    by (rule merge_best_sound)
  with pm show ?thesis by blast
qed

subsection \<open>The collection is only read\<close>

text \<open>
  Claim C9. A call of \<open>find_matches\<close> leaves the global list \<open>movies\<close> as it was:
  the same records in the same order, every field (name, year, genre, category,
  rating, box office, cached search text) unchanged. Only the log may grow.
\<close>

theorem collection_unchanged:
  "movies (snd (find_matches env a st)) = movies st"
  by (simp add: find_matches_def movies_logged split: sum.splits prod.splits)

subsection \<open>A query that is not text\<close>

text \<open>
  Claim C3, as stated, fails: for a query that is a number, \<open>find_matches\<close> does
  not raise; it returns the empty list.
\<close>

theorem non_text_query_counterexample:
  "fst (find_matches env_off (default_args\<lparr>query_text := PNum 5\<rparr>) sample_state) = Inr []"
  by (simp add: find_matches_def query_lower_num)

text \<open>
  Claim C3, amended. \<open>sanitize_query\<close> fails with \<open>TypeError\<close> on a query that is
  not text. \<open>find_matches\<close> catches that error: for a number as query it returns
  the empty list and leaves the state as it was, and it never passes \<open>None\<close> to
  \<open>sanitize_query\<close> but reads it as the empty query.
\<close>

theorem non_text_query_swallowed:
  "sanitize_query (PNum r) n = Inl TypeError
   \<and> sanitize_query PNone n = Inl TypeError
   \<and> find_matches env (a\<lparr>query_text := PNum r\<rparr>) st = (Inr [], st)
   \<and> query_lower PNone = query_lower (PStr [])"
  by (simp add: find_matches_def query_lower_num query_lower_empty sanitize_query_def)

subsection \<open>The empty query without filters\<close>

text \<open>
  Claim C10. When the query is the empty string or \<open>None\<close> and none of genre,
  category, min_rating, year, year_from, year_to is supplied, \<open>find_matches\<close>
  returns the empty list, whatever the collection, the scorer and the other
  parameters are, and the state is as before (the fuzzy stage is not entered, so
  nothing is logged).
\<close>

theorem empty_query_no_filters:
  "find_matches env (a\<lparr>query_text := PStr [], genre_arg := PNone, category_arg := PNone,
       min_rating := PNone, year_arg := PNone, year_from := PNone, year_to := PNone\<rparr>) st
     = (Inr [], st)
   \<and> find_matches env (a\<lparr>query_text := PNone, genre_arg := PNone, category_arg := PNone,
       min_rating := PNone, year_arg := PNone, year_from := PNone, year_to := PNone\<rparr>) st
     = (Inr [], st)"
  by (simp add: find_matches_def query_lower_empty search_best_empty rank_nil cap_nil logged_nil)

subsection \<open>Sorting by year\<close>

text \<open>
  The order that \<open>sort_by="year"\<close> does give: the returned list is in
  descending order of the key (year, rating, priority), where the priority is the
  one kept by the merger.
\<close>

lemma sort_by_year_key:
  "fst (find_matches env (a\<lparr>sort_by := Some ''year''\<rparr>) st) = Inr rs \<longrightarrow>
     sorted_wrt (\<lambda>x y. (year y, rating y,
                          priority_of (best_of env (a\<lparr>sort_by := Some ''year''\<rparr>) st) y)
                       \<le> (year x, rating x,
                          priority_of (best_of env (a\<lparr>sort_by := Some ''year''\<rparr>) st) x)) rs
     \<and> sorted_wrt (\<lambda>x y. year y \<le> year x) rs
     \<and> sorted_wrt (\<lambda>x y. year x = year y \<longrightarrow> rating y \<le> rating x) rs"
proof
  assume res: "fst (find_matches env (a\<lparr>sort_by := Some ''year''\<rparr>) st) = Inr rs"
  let ?a = "a\<lparr>sort_by := Some ''year''\<rparr>"
  let ?k = "\<lambda>x. (year x, rating x, priority_of (best_of env ?a st) x)"
  have sb: "sort_by ?a = Some ''year''"
    by simp
  have main: "sorted_wrt (\<lambda>x y. ?k y \<le> ?k x) rs"
    unfolding find_matches_result [OF res] sb rank_year
    by (rule sorted_wrt_cap) (rule sorted_sort_desc)
  have "sorted_wrt (\<lambda>x y. year y \<le> year x) rs"
    by (rule sorted_wrt_mono_rel [OF _ main]) (auto dest: lex3_fst)
  moreover have "sorted_wrt (\<lambda>x y. year x = year y \<longrightarrow> rating y \<le> rating x) rs"
    by (rule sorted_wrt_mono_rel [OF _ main]) (auto dest: lex3_snd)
  ultimately show "sorted_wrt (\<lambda>x y. ?k y \<le> ?k x) rs
     \<and> sorted_wrt (\<lambda>x y. year y \<le> year x) rs
     \<and> sorted_wrt (\<lambda>x y. year x = year y \<longrightarrow> rating y \<le> rating x) rs"
    using main by blast
qed

text \<open>
  Claim C1. The specification asks that under \<open>sort_by="year"\<close> ties on the
  year are broken by rating and then by box office. The code departs from it:
  the key of the year branch is (year, rating, priority), box office is missing
  from it, while the keys of the rating branch, of the box office branch and of
  the default branch hold all of their fields. Two records of the sample
  collection match the query "dawn" with priority 1000 and agree in year and
  rating; under \<open>sort_by="year"\<close> the one with the smaller box office comes
  first, under \<open>sort_by="rating"\<close> and without \<open>sort_by\<close> the one with the
  larger box office does.
\<close>

theorem sort_by_year_drops_revenue:
  "fst (find_matches env_off
          (default_args\<lparr>query_text := PStr ''dawn'', sort_by := Some ''year''\<rparr>) sample_state)
     = Inr [silent_dawn, golden_dawn]
   \<and> year silent_dawn = year golden_dawn \<and> rating silent_dawn = rating golden_dawn
   \<and> box_office_millions silent_dawn < box_office_millions golden_dawn
   \<and> fst (find_matches env_off
          (default_args\<lparr>query_text := PStr ''dawn'', sort_by := Some ''rating''\<rparr>) sample_state)
     = Inr [golden_dawn, silent_dawn]
   \<and> fst (find_matches env_off
          (default_args\<lparr>query_text := PStr ''dawn''\<rparr>) sample_state)
     = Inr [golden_dawn, silent_dawn]"
  by code_simp

subsection \<open>Filters are a conjunction\<close>

text \<open>
  Claim C5. Every record that \<open>find_matches\<close> returns is a record of the
  collection that satisfies every filter supplied, the predicates being joined by
  conjunction. In particular, with \<open>genre="Animation"\<close> and \<open>min_rating=8.0\<close>
  every returned record has the lower-cased "Animation" inside its lower-cased
  genre or category, and a rating of at least 8.
\<close>

theorem filter_conjunction:
  "(fst (find_matches env a st) = Inr rs \<and> m \<in> set rs
      \<longrightarrow> m \<in> set (movies st) \<and> satisfies_filters a m)
   \<and> (fst (find_matches env (a\<lparr>genre_arg := PStr ''Animation'', min_rating := PNum 8\<rparr>) st)
        = Inr rs' \<and> m' \<in> set rs'
      \<longrightarrow> (contains (lower (genre m')) (lower ''Animation'')
           \<or> contains (lower (category m')) (lower ''Animation''))
          \<and> rating m' \<ge> 8)"
proof -
  let ?a = "a\<lparr>genre_arg := PStr ''Animation'', min_rating := PNum 8\<rparr>"
  have general: "m \<in> set (movies st) \<and> satisfies_filters a m"
    if "fst (find_matches env a st) = Inr rs \<and> m \<in> set rs"
    using that results_satisfy_filters by blast
  have special: "(contains (lower (genre m')) (lower ''Animation'')
           \<or> contains (lower (category m')) (lower ''Animation''))
          \<and> rating m' \<ge> 8"
    if "fst (find_matches env ?a st) = Inr rs' \<and> m' \<in> set rs'"
  proof -
    from that have "satisfies_filters ?a m'"
      using results_satisfy_filters by blast
    then show ?thesis
      by (simp add: satisfies_filters_def text_pred_def num_pred_def)
  qed
  from general special show ?thesis by blast
qed


theorem filter_conjunction_witness:
  "fst (find_matches env_off
          (default_args\<lparr>genre_arg := PStr ''Animation'', min_rating := PNum 8\<rparr>) sample_state)
     = Inr [toy_story]
   \<and> (contains (lower (genre toy_story)) (lower ''Animation'')
        \<or> contains (lower (category toy_story)) (lower ''Animation''))
   \<and> rating toy_story \<ge> 8
   \<and> satisfies_filters (default_args\<lparr>genre_arg := PStr ''Animation'', min_rating := PNum 8\<rparr>)
        toy_story"
proof -
  let ?a = "default_args\<lparr>genre_arg := PStr ''Animation'', min_rating := PNum 8\<rparr>"
  have ev: "fst (find_matches env_off ?a sample_state) = Inr [toy_story]"
    by code_simp
  have aa: "?a\<lparr>genre_arg := PStr ''Animation'', min_rating := PNum 8\<rparr> = ?a"
    by simp
  from ev filter_conjunction [of env_off ?a sample_state "[toy_story]" toy_story
      "[toy_story]" toy_story]
  show ?thesis unfolding aa by simp
qed


subsection \<open>One entry per identity\<close>

text \<open>
  Claim C6. The list that \<open>find_matches\<close> returns never holds two records with
  the same (name, year). Each returned record is one of the pairs collected by the
  tiers and the fuzzy stage, and its priority there is the highest among all
  collected pairs with the same (name, year). Every collected pair keeps an entry
  in the dictionary \<open>best\<close>: under its (name, year) the dictionary holds a
  collected pair of that identity whose priority is at least that of the pair.
  Without a cap (\<open>max_results\<close> 0 or \<open>None\<close>) the identities returned are
  exactly the identities collected, one record for each.
\<close>

theorem identity_unique:
  "(fst (find_matches env a st) = Inr rs \<longrightarrow> distinct (map ident rs))
   \<and> (query_lower (query_text a) = Inr q \<and> apply_filters a (movies st) = Inr ml
        \<and> collect_matches env a q ml = (Inr ms, lg)
        \<and> fst (find_matches env a st) = Inr rs \<and> r \<in> set rs
      \<longrightarrow> (\<exists>p. (r, p) \<in> set ms
            \<and> (\<forall>m' p'. (m', p') \<in> set ms \<and> ident m' = ident r \<longrightarrow> p' \<le> p)))
   \<and> (query_lower (query_text a) = Inr q \<and> apply_filters a (movies st) = Inr ml
        \<and> collect_matches env a q ml = (Inr ms, lg) \<and> (m, p) \<in> set ms
      \<longrightarrow> (\<exists>pm. map_of (best_of env a st) (ident m) = Some pm \<and> p \<le> fst pm
            \<and> (snd pm, fst pm) \<in> set ms \<and> ident (snd pm) = ident m))
   \<and> (query_lower (query_text a) = Inr q \<and> apply_filters a (movies st) = Inr ml
        \<and> collect_matches env a q ml = (Inr ms, lg)
        \<and> fst (find_matches env a st) = Inr rs
        \<and> (max_results a = None \<or> max_results a = Some 0)
      \<longrightarrow> ident ` set rs = ident ` fst ` set ms \<and> length rs = card (ident ` fst ` set ms))"
proof -
  have p1: "distinct (map ident rs)" if "fst (find_matches env a st) = Inr rs"
    using that by (rule results_distinct)
  have bo: "best_of env a st = merge_best ms"
    if "query_lower (query_text a) = Inr q \<and> apply_filters a (movies st) = Inr ml
        \<and> collect_matches env a q ml = (Inr ms, lg)"
    using that by (simp add: best_of_def search_best_def)
  have p2: "\<exists>p. (r, p) \<in> set ms
            \<and> (\<forall>m' p'. (m', p') \<in> set ms \<and> ident m' = ident r \<longrightarrow> p' \<le> p)"
    if h: "query_lower (query_text a) = Inr q \<and> apply_filters a (movies st) = Inr ml
        \<and> collect_matches env a q ml = (Inr ms, lg)
        \<and> fst (find_matches env a st) = Inr rs \<and> r \<in> set rs"
  proof -
    from h have b: "best_of env a st = merge_best ms"
      using bo by blast
    from h obtain k p where kp: "(k, (p, r)) \<in> set (merge_best ms)"
      using find_matches_member [of env a st rs r] b by auto
    then have k: "ident r = k" and rp: "(r, p) \<in> set ms"
      using merge_best_sound by blast+
    have look: "map_of (merge_best ms) k = Some (p, r)"
      using kp by (rule merge_best_lookup)
    have "p' \<le> p" if "(m', p') \<in> set ms" "ident m' = ident r" for m' p'
      using merge_best_complete [OF that(1)] that(2) k look by auto
    with rp show ?thesis by blast
  qed
  have p3: "\<exists>pm. map_of (best_of env a st) (ident m) = Some pm \<and> p \<le> fst pm
            \<and> (snd pm, fst pm) \<in> set ms \<and> ident (snd pm) = ident m"
    if h: "query_lower (query_text a) = Inr q \<and> apply_filters a (movies st) = Inr ml
        \<and> collect_matches env a q ml = (Inr ms, lg) \<and> (m, p) \<in> set ms"
  proof -
    from h have b: "best_of env a st = merge_best ms"
      using bo by blast
    from h have "(m, p) \<in> set ms" by blast
    from merged_entry [OF this] show ?thesis
      unfolding b .
  qed
  have p4: "ident ` set rs = ident ` fst ` set ms \<and> length rs = card (ident ` fst ` set ms)"
    if h: "query_lower (query_text a) = Inr q \<and> apply_filters a (movies st) = Inr ml
        \<and> collect_matches env a q ml = (Inr ms, lg)
        \<and> fst (find_matches env a st) = Inr rs
        \<and> (max_results a = None \<or> max_results a = Some 0)"
  proof -
    from h have ql: "query_lower (query_text a) = Inr q"
      and af: "apply_filters a (movies st) = Inr ml"
      and cm: "collect_matches env a q ml = (Inr ms, lg)"
      and res: "fst (find_matches env a st) = Inr rs"
      and unc: "max_results a = None \<or> max_results a = Some 0"
      by blast+
    from find_matches_anatomy [OF ql af res] cm have
      rs: "rs = cap (max_results a) (rank (sort_by a) (merge_best ms)
               (map (\<lambda>kv. snd (snd kv)) (merge_best ms)))"
      by auto
    have ids: "ident ` set rs = ident ` fst ` set ms"
      unfolding rs using unc by (rule uncapped_idents)
    have "card (ident ` set rs) = length rs"
      using p1 [OF res] by (metis distinct_card length_map set_map)
    with ids show ?thesis by simp
  qed
  from p1 p2 p3 p4 show ?thesis by blast
qed

theorem identity_unique_witness:
  "fst (find_matches env_fuzz
          (default_args\<lparr>max_results := None, fuzzy_threshold := 60,
             query_text := PStr ''indiesx''\<rparr>) twin_state)
     = Inr [indies_dawn, silent_dawn]
   \<and> collect_matches env_fuzz
         (default_args\<lparr>max_results := None, fuzzy_threshold := 60,
            query_text := PStr ''indiesx''\<rparr>) ''indiesx'' (movies twin_state)
       = (Inr [(indies_dawn, 70), (silent_dawn, 69), (indie_dawn, 69)], [])
   \<and> ident indie_dawn = ident indies_dawn \<and> indie_dawn \<noteq> indies_dawn
   \<and> ident silent_dawn \<noteq> ident indies_dawn
   \<and> distinct (map ident [indies_dawn, silent_dawn])
   \<and> (\<exists>p. (indies_dawn, p)
              \<in> set [(indies_dawn, 70 :: int), (silent_dawn, 69), (indie_dawn, 69)]
         \<and> (\<forall>m' p'. (m', p')
                      \<in> set [(indies_dawn, 70 :: int), (silent_dawn, 69), (indie_dawn, 69)]
               \<and> ident m' = ident indies_dawn \<longrightarrow> p' \<le> p))
   \<and> (\<exists>pm. map_of (best_of env_fuzz
                 (default_args\<lparr>max_results := None, fuzzy_threshold := 60,
                    query_text := PStr ''indiesx''\<rparr>) twin_state) (ident indie_dawn) = Some pm
         \<and> 69 \<le> fst pm
         \<and> (snd pm, fst pm)
              \<in> set [(indies_dawn, 70 :: int), (silent_dawn, 69), (indie_dawn, 69)]
         \<and> ident (snd pm) = ident indie_dawn)
   \<and> map_of (best_of env_fuzz
                 (default_args\<lparr>max_results := None, fuzzy_threshold := 60,
                    query_text := PStr ''indiesx''\<rparr>) twin_state) (ident indie_dawn)
       = Some (70, indies_dawn)
   \<and> map_of (best_of env_fuzz
                 (default_args\<lparr>max_results := None, fuzzy_threshold := 60,
                    query_text := PStr ''indiesx''\<rparr>) twin_state) (ident silent_dawn)
       = Some (69, silent_dawn)
   \<and> ident ` set [indies_dawn, silent_dawn]
       = ident ` fst ` set [(indies_dawn, 70 :: int), (silent_dawn, 69), (indie_dawn, 69)]
   \<and> length [indies_dawn, silent_dawn]
       = card (ident ` fst ` set [(indies_dawn, 70 :: int), (silent_dawn, 69), (indie_dawn, 69)])"
proof -
  let ?a = "default_args\<lparr>max_results := None, fuzzy_threshold := 60,
              query_text := PStr ''indiesx''\<rparr>"
  let ?ms = "[(indies_dawn, 70 :: int), (silent_dawn, 69), (indie_dawn, 69)]"
  let ?rs = "[indies_dawn, silent_dawn]"
  have ev: "fst (find_matches env_fuzz ?a twin_state) = Inr ?rs"
    by code_simp
  have q: "query_lower (query_text ?a) = Inr ''indiesx''"
    by code_simp
  have f: "apply_filters ?a (movies twin_state) = Inr (movies twin_state)"
    by (rule apply_filters_none) (simp_all add: default_args_def)
  have c: "collect_matches env_fuzz ?a ''indiesx'' (movies twin_state) = (Inr ?ms, [])"
    by code_simp
  have i: "ident indie_dawn = ident indies_dawn"
    by (simp add: indie_dawn_def indies_dawn_def ident_def)
  have n: "indie_dawn \<noteq> indies_dawn"
    by (simp add: indie_dawn_def indies_dawn_def)
  have o: "ident silent_dawn \<noteq> ident indies_dawn"
    by (simp add: silent_dawn_def indies_dawn_def ident_def)
  have lk: "map_of (best_of env_fuzz ?a twin_state) (ident indie_dawn) = Some (70, indies_dawn)"
    by code_simp
  have ls: "map_of (best_of env_fuzz ?a twin_state) (ident silent_dawn) = Some (69, silent_dawn)"
    by code_simp
  have r: "indies_dawn \<in> set ?rs"
    by simp
  have low: "(indie_dawn, 69 :: int) \<in> set ?ms"
    by simp
  have unc: "max_results ?a = None \<or> max_results ?a = Some 0"
    by simp
  note t = identity_unique [where env = env_fuzz and a = ?a and st = twin_state
      and rs = ?rs and q = "''indiesx''" and ml = "movies twin_state"
      and ms = ?ms and lg = "[]" and r = indies_dawn and m = indie_dawn and p = 69]
  have c1: "distinct (map ident ?rs)"
    using conjunct1 [OF t] ev by (rule mp)
  have c2: "\<exists>p. (indies_dawn, p) \<in> set ?ms
         \<and> (\<forall>m' p'. (m', p') \<in> set ?ms \<and> ident m' = ident indies_dawn \<longrightarrow> p' \<le> p)"
    using conjunct1 [OF conjunct2 [OF t]]
      conjI [OF q conjI [OF f conjI [OF c conjI [OF ev r]]]]
    by (rule mp)
  have c3: "\<exists>pm. map_of (best_of env_fuzz ?a twin_state) (ident indie_dawn)
           = Some pm
         \<and> 69 \<le> fst pm \<and> (snd pm, fst pm) \<in> set ?ms \<and> ident (snd pm) = ident indie_dawn"
    using conjunct1 [OF conjunct2 [OF conjunct2 [OF t]]]
      conjI [OF q conjI [OF f conjI [OF c low]]]
    by (rule mp)
  have c4: "ident ` set ?rs = ident ` fst ` set ?ms
      \<and> length ?rs = card (ident ` fst ` set ?ms)"
    using conjunct2 [OF conjunct2 [OF conjunct2 [OF t]]]
      conjI [OF q conjI [OF f conjI [OF c conjI [OF ev unc]]]]
    by (rule mp)
  show ?thesis
    by (intro conjI) (rule ev c i n o c1 c2 c3 lk ls conjunct1 [OF c4] conjunct2 [OF c4])+
qed

subsection \<open>The cap\<close>

text \<open>
  Claim C8, as stated, fails for a caller who leaves \<open>max_results\<close> unset: the
  signature binds it to 50. Of 51 records that match the query, 50 are returned;
  with \<open>max_results=0\<close> all 51 are.
\<close>

theorem cap_default_counterexample:
  "fst (find_matches env_off (default_args\<lparr>query_text := PStr ''dawn''\<rparr>) crowd_state)
     = Inr (take 50 crowd)
   \<and> fst (find_matches env_off
            (default_args\<lparr>query_text := PStr ''dawn'', max_results := Some 0\<rparr>) crowd_state)
     = Inr crowd
   \<and> length crowd = 51"
  by code_simp

text \<open>
  Claim C8, amended. With \<open>max_results = n\<close> for a positive \<open>n\<close> at most \<open>n\<close>
  records are returned: the first \<open>n\<close> of the uncapped ranking. With
  \<open>max_results\<close> 0 or \<open>None\<close> the whole ranking is returned, one record per entry
  of the merger. A caller who does not pass \<open>max_results\<close> gets the default 50,
  hence at most 50 records.
\<close>

theorem cap_respected:
  "(0 < n \<and> fst (find_matches env (a\<lparr>max_results := Some n\<rparr>) st) = Inr rs
      \<longrightarrow> length rs \<le> nat n)
   \<and> (fst (find_matches env (a\<lparr>max_results := None\<rparr>) st) = Inr full
      \<longrightarrow> fst (find_matches env (a\<lparr>max_results := Some 0\<rparr>) st) = Inr full
        \<and> length full = length (best_of env a st)
        \<and> (0 < n \<longrightarrow> fst (find_matches env (a\<lparr>max_results := Some n\<rparr>) st)
                        = Inr (take (nat n) full)))
   \<and> max_results default_args = Some 50
   \<and> (fst (find_matches env (a\<lparr>max_results := max_results default_args\<rparr>) st) = Inr rs'
      \<longrightarrow> length rs' \<le> 50)"
proof (intro conjI impI)
  assume "0 < n \<and> fst (find_matches env (a\<lparr>max_results := Some n\<rparr>) st) = Inr rs"
  then have "0 < n" and "rs = cap (Some n) (rank (sort_by a) (best_of env (a\<lparr>max_results := Some n\<rparr>) st)
      (map (\<lambda>kv. snd (snd kv)) (best_of env (a\<lparr>max_results := Some n\<rparr>) st)))"
    using find_matches_result [of env "a\<lparr>max_results := Some n\<rparr>" st rs] by simp_all
  then show "length rs \<le> nat n"
    by (simp add: cap_def)
next
  assume full: "fst (find_matches env (a\<lparr>max_results := None\<rparr>) st) = Inr full"
  show "fst (find_matches env (a\<lparr>max_results := Some 0\<rparr>) st) = Inr full"
    using find_matches_recap [OF full, of "Some 0"] by (simp add: cap_def)
  show "length full = length (best_of env a st)"
    by (rule length_uncapped [OF full])
  assume "0 < n"
  then show "fst (find_matches env (a\<lparr>max_results := Some n\<rparr>) st) = Inr (take (nat n) full)"
    using find_matches_recap [OF full, of "Some n"] by (simp add: cap_def)
next
  show "max_results default_args = Some 50"
    by (simp add: default_args_def)
next
  assume "fst (find_matches env (a\<lparr>max_results := max_results default_args\<rparr>) st) = Inr rs'"
  then have "rs' = cap (Some 50) (rank (sort_by a) (best_of env (a\<lparr>max_results := Some 50\<rparr>) st)
      (map (\<lambda>kv. snd (snd kv)) (best_of env (a\<lparr>max_results := Some 50\<rparr>) st)))"
    using find_matches_result [of env "a\<lparr>max_results := Some 50\<rparr>" st rs']
    by (simp add: default_args_def)
  then show "length rs' \<le> 50"
    by (simp add: cap_def)
qed

theorem cap_respected_witness:
  "fst (find_matches env_off (default_args\<lparr>query_text := PStr ''drama'', max_results := Some 2\<rparr>)
          sample_state) = Inr [social_network, golden_dawn]
   \<and> fst (find_matches env_off (default_args\<lparr>query_text := PStr ''drama'', max_results := None\<rparr>)
          sample_state) = Inr [social_network, golden_dawn, silent_dawn]
   \<and> fst (find_matches env_off (default_args\<lparr>query_text := PStr ''drama'', max_results := Some 0\<rparr>)
          sample_state) = Inr [social_network, golden_dawn, silent_dawn]
   \<and> length [social_network, golden_dawn] \<le> nat 2"
proof -
  let ?a = "default_args\<lparr>query_text := PStr ''drama''\<rparr>"
  have full: "fst (find_matches env_off (?a\<lparr>max_results := None\<rparr>) sample_state)
      = Inr [social_network, golden_dawn, silent_dawn]"
    by code_simp
  from full cap_respected [of 2 env_off ?a sample_state "[social_network, golden_dawn]"
      "[social_network, golden_dawn, silent_dawn]"]
  show ?thesis by simp
qed


subsection \<open>A filter value of the wrong type\<close>

text \<open>
  Claim C4, as stated, fails: with a text \<open>min_rating\<close> the search raises
  \<open>TypeError\<close>, whereas the same search without the filter returns two records.
\<close>

theorem wrong_type_filter_counterexample:
  "fst (find_matches env_off
          (default_args\<lparr>query_text := PStr ''dawn'', min_rating := PStr ''high''\<rparr>) sample_state)
     = Inl TypeError
   \<and> fst (find_matches env_off (default_args\<lparr>query_text := PStr ''dawn''\<rparr>) sample_state)
     = Inr [golden_dawn, silent_dawn]"
  by code_simp


text \<open>
  Claim C4, amended. \<open>find_matches\<close> does not check the type of a filter value
  and does not read a value of the wrong type as an absent filter. For a query
  that is text or \<open>None\<close>: a text \<open>min_rating\<close> raises \<open>TypeError\<close> as soon as
  one record passes the genre and category filters; a number other than zero as
  \<open>genre\<close> raises \<open>AttributeError\<close>; a text \<open>year\<close> raises nothing and matches no
  record, so that a search that returns at all returns the empty list.
\<close>

theorem wrong_type_filter_raises:
  "(query_lower (query_text a) = Inr q
      \<and> text_filter (genre_arg a) genre category (movies st) = Inr l1
      \<and> text_filter (category_arg a) category genre l1 = Inr l2 \<and> l2 \<noteq> []
    \<longrightarrow> find_matches env (a\<lparr>min_rating := PStr s\<rparr>) st = (Inl TypeError, st))
   \<and> (query_lower (query_text a) = Inr q \<and> r \<noteq> 0
    \<longrightarrow> find_matches env (a\<lparr>genre_arg := PNum r\<rparr>) st = (Inl AttributeError, st))
   \<and> (fst (find_matches env (a\<lparr>year_arg := PStr s\<rparr>) st) = Inr rs \<longrightarrow> rs = [])"
proof -
  have p1: "find_matches env (a\<lparr>min_rating := PStr s\<rparr>) st = (Inl TypeError, st)"
    if "query_lower (query_text a) = Inr q
      \<and> text_filter (genre_arg a) genre category (movies st) = Inr l1
      \<and> text_filter (category_arg a) category genre l1 = Inr l2 \<and> l2 \<noteq> []"
  proof -
    from that have "apply_filters (a\<lparr>min_rating := PStr s\<rparr>) (movies st) = Inl TypeError"
      by (simp add: apply_filters_min_rating bind_err_def order_filter_def)
    moreover from that have "query_lower (query_text (a\<lparr>min_rating := PStr s\<rparr>)) = Inr q"
      by simp
    ultimately show ?thesis
      by (rule find_matches_filter_error [rotated])
  qed
  have p2: "find_matches env (a\<lparr>genre_arg := PNum r\<rparr>) st = (Inl AttributeError, st)"
    if "query_lower (query_text a) = Inr q \<and> r \<noteq> 0"
  proof -
    from that have "apply_filters (a\<lparr>genre_arg := PNum r\<rparr>) (movies st) = Inl AttributeError"
      by (simp add: apply_filters_def bind_err_def text_filter_def)
    moreover from that have "query_lower (query_text (a\<lparr>genre_arg := PNum r\<rparr>)) = Inr q"
      by simp
    ultimately show ?thesis
      by (rule find_matches_filter_error [rotated])
  qed
  have p3: "rs = []" if "fst (find_matches env (a\<lparr>year_arg := PStr s\<rparr>) st) = Inr rs"
  proof (rule ccontr)
    assume "rs \<noteq> []"
    then obtain m where "m \<in> set rs" by (cases rs) auto
    with that have "satisfies_filters (a\<lparr>year_arg := PStr s\<rparr>) m"
      using results_satisfy_filters by blast
    then show False
      by (simp add: satisfies_filters_def num_pred_def)
  qed
  from p1 p2 p3 show ?thesis by blast
qed


theorem wrong_type_filter_raises_witness:
  "find_matches env_off (default_args\<lparr>query_text := PStr ''Dawn'', min_rating := PStr ''high''\<rparr>)
     sample_state = (Inl TypeError, sample_state)
   \<and> find_matches env_off (default_args\<lparr>query_text := PStr ''Dawn'', genre_arg := PNum 5\<rparr>)
     sample_state = (Inl AttributeError, sample_state)
   \<and> movies sample_state \<noteq> []"
proof -
  let ?a = "default_args\<lparr>query_text := PStr ''Dawn''\<rparr>"
  have q: "query_lower (query_text ?a) = Inr ''dawn''"
    by code_simp
  have f1: "text_filter (genre_arg ?a) genre category (movies sample_state)
      = Inr (movies sample_state)"
    by (simp add: default_args_def text_filter_def)
  have f2: "text_filter (category_arg ?a) category genre (movies sample_state)
      = Inr (movies sample_state)"
    by (simp add: default_args_def text_filter_def)
  have ne: "movies sample_state \<noteq> []"
    by (simp add: sample_state_def)
  have five: "(5 :: rat) \<noteq> 0" by simp
  from q f1 f2 ne five
    wrong_type_filter_raises [of ?a "''dawn''" sample_state "movies sample_state"
      "movies sample_state" env_off "''high''" 5]
  show ?thesis by (simp del: One_nat_def)
qed

subsection \<open>A numeric query\<close>

text \<open>
  Claim C2, as stated, fails: the fuzzy stage runs for a numeric query as for any
  other query that is not empty. With a scorer that gives 100 to a text holding
  the query, the query "2010" also returns a record of the year 1984 whose name
  begins with "2010".
\<close>

theorem numeric_query_counterexample:
  "fst (find_matches env_batch (default_args\<lparr>query_text := PStr ''2010''\<rparr>) sample_state)
     = Inr [inception, social_network, odyssey_two]
   \<and> year odyssey_two = 1984"
  by code_simp


text \<open>
  Claim C2, amended. Let the query consist of at most 100 decimal digits and let
  the filters not raise. Whether the fuzzy stage is on or off, every filtered
  record whose year is the number written by the query is matched with priority
  1000, and without a cap (\<open>max_results\<close> 0 or \<open>None\<close>) the identity of each of
  them is returned, the record itself when no two filtered records share an
  identity. Every returned record is a filtered record; one whose year differs
  from the number comes from the fuzzy stage, which is then on, with a priority
  of at least \<open>fuzzy_threshold\<close>. The token tiers add nothing. When the fuzzy
  stage is off (it is disabled or RapidFuzz is not installed) the call returns
  normally with the state unchanged, and without a cap the records returned are
  exactly the filtered records of that year. When it is on the call returns
  normally as long as \<open>rprocess.extract\<close> gives no row with an index outside the
  candidate list.
\<close>

theorem numeric_query_exact:
  assumes "q \<noteq> []" and "list_all is_ascii_digit q" and "length q \<le> 100"
    and "apply_filters a (movies st) = Inr ml"
  shows "(\<not> (enable_fuzzy a \<and> has_rapidfuzz env)
           \<longrightarrow> (\<exists>rs. find_matches env (a\<lparr>query_text := PStr q\<rparr>) st = (Inr rs, st)))
     \<and> ((has_process env \<longrightarrow>
            (\<forall>rows c s i.
                process_extract env q
                    (map search_text_of
                       (candidate_subset ml
                          (map (\<lambda>m. (m, 1000)) (filter (\<lambda>m. year m = digits_value q) ml))))
                  = Some rows
                \<and> (c, s, i) \<in> set rows
              \<longrightarrow> i < length (candidate_subset ml
                     (map (\<lambda>m. (m, 1000)) (filter (\<lambda>m. year m = digits_value q) ml)))))
           \<longrightarrow> (\<exists>rs lg. find_matches env (a\<lparr>query_text := PStr q\<rparr>) st
                            = (Inr rs, logged st lg)))
     \<and> (\<forall>rs. fst (find_matches env (a\<lparr>query_text := PStr q\<rparr>) st) = Inr rs \<longrightarrow>
          (\<forall>m \<in> set rs. m \<in> set ml
             \<and> (year m = digits_value q
                   \<and> priority_of (best_of env (a\<lparr>query_text := PStr q\<rparr>) st) m = 1000
                 \<or> year m \<noteq> digits_value q \<and> enable_fuzzy a \<and> has_rapidfuzz env
                   \<and> fuzzy_threshold a
                       \<le> priority_of (best_of env (a\<lparr>query_text := PStr q\<rparr>) st) m))
          \<and> (\<not> (enable_fuzzy a \<and> has_rapidfuzz env)
                \<longrightarrow> set rs \<subseteq> {m \<in> set ml. year m = digits_value q})
          \<and> (max_results a = None \<or> max_results a = Some 0 \<longrightarrow>
                ident ` {m \<in> set ml. year m = digits_value q} \<subseteq> ident ` set rs
                \<and> (distinct (map ident ml)
                      \<longrightarrow> {m \<in> set ml. year m = digits_value q} \<subseteq> set rs)
                \<and> (\<not> (enable_fuzzy a \<and> has_rapidfuzz env)
                      \<longrightarrow> ident ` set rs = ident ` {m \<in> set ml. year m = digits_value q}
                        \<and> (distinct (map ident ml)
                              \<longrightarrow> set rs = {m \<in> set ml. year m = digits_value q}))))"
proof -
  let ?a = "a\<lparr>query_text := PStr q\<rparr>"
  let ?v = "digits_value q"
  let ?Y = "filter (\<lambda>m. year m = ?v) ml"
  let ?ms = "map (\<lambda>m. (m, 1000 :: int)) ?Y"
  let ?on = "enable_fuzzy a \<and> has_rapidfuzz env"
  have ql: "query_lower (PStr q) = Inr q"
    using assms(2,3) by (rule query_lower_digits)
  have ql': "query_lower (query_text ?a) = Inr q"
    using ql by simp
  have af: "apply_filters ?a (movies st) = Inr ml"
    using assms(4) by (simp add: apply_filters_def)
  have tm: "text_matches q g ml = Inr ?ms" for g
    using assms(1,2) by (rule text_matches_digits)
  have Yset: "set ?Y = {m \<in> set ml. year m = ?v}"
    by simp
  have fst_ms: "fst ` set ?ms = set ?Y"
    by (simp add: image_image)
  have off: "\<exists>rs. find_matches env ?a st = (Inr rs, st)" if "\<not> ?on"
  proof -
    from that have "collect_matches env ?a q ml = (Inr ?ms, [])"
      by (auto simp: collect_matches_def tm)
    then have "search_best env ?a q (movies st) = (Inr (merge_best ?ms), [])"
      by (simp add: search_best_def af)
    then show ?thesis
      by (simp add: find_matches_def ql logged_nil)
  qed
  have ret: "\<exists>rs lg. find_matches env ?a st = (Inr rs, logged st lg)"
    if "has_process env \<longrightarrow>
            (\<forall>rows c s i.
                process_extract env q (map search_text_of (candidate_subset ml ?ms)) = Some rows
                \<and> (c, s, i) \<in> set rows
              \<longrightarrow> i < length (candidate_subset ml ?ms))"
    using ql' af tm that by (rule find_matches_returns)
  have main: "(\<forall>m \<in> set rs. m \<in> set ml
             \<and> (year m = ?v \<and> priority_of (best_of env ?a st) m = 1000
                 \<or> year m \<noteq> ?v \<and> ?on
                   \<and> fuzzy_threshold a \<le> priority_of (best_of env ?a st) m))
          \<and> (\<not> ?on \<longrightarrow> set rs \<subseteq> {m \<in> set ml. year m = ?v})
          \<and> (max_results a = None \<or> max_results a = Some 0 \<longrightarrow>
                ident ` {m \<in> set ml. year m = ?v} \<subseteq> ident ` set rs
                \<and> (distinct (map ident ml) \<longrightarrow> {m \<in> set ml. year m = ?v} \<subseteq> set rs)
                \<and> (\<not> ?on
                      \<longrightarrow> ident ` set rs = ident ` {m \<in> set ml. year m = ?v}
                        \<and> (distinct (map ident ml)
                              \<longrightarrow> set rs = {m \<in> set ml. year m = ?v})))"
    if res: "fst (find_matches env ?a st) = Inr rs" for rs
  proof -
    from find_matches_anatomy [OF ql' af res] obtain collected lg where
      cm: "collect_matches env ?a q ml = (Inr collected, lg)" and
      bo: "best_of env ?a st = merge_best collected" and
      rs: "rs = cap (max_results ?a) (rank (sort_by ?a) (merge_best collected)
               (map (\<lambda>kv. snd (snd kv)) (merge_best collected)))"
      by blast
    from collect_matches_Inr [OF cm] tm have
      shape: "(\<not> (?on \<and> q \<noteq> []) \<and> collected = ?ms)
        \<or> (?on \<and> (\<exists>fm. fuzzy_matches env q (fuzzy_threshold a) ml ?ms = (Inr fm, lg)
                 \<and> collected = ?ms @ fm))"
      by auto
    have pair: "m \<in> set ml
         \<and> (year m = ?v \<and> p = 1000 \<or> year m \<noteq> ?v \<and> ?on \<and> fuzzy_threshold a \<le> p)"
      if mp: "(m, p) \<in> set collected" for m p
    proof (cases "(m, p) \<in> set ?ms")
      case True
      then show ?thesis by auto
    next
      case False
      with mp shape obtain fm where on: "?on" and
        fz: "fuzzy_matches env q (fuzzy_threshold a) ml ?ms = (Inr fm, lg)" and
        infm: "(m, p) \<in> set fm"
        by auto
      from fuzzy_matches_member [OF fz infm] have
        cand: "m \<in> set (candidate_subset ml ?ms)" and thr: "fuzzy_threshold a \<le> p"
        by blast+
      from cand have inml: "m \<in> set ml" by (rule candidate_subset_subset)
      have "year m \<noteq> ?v"
      proof
        assume "year m = ?v"
        with inml have "(m, 1000) \<in> set ?ms" by simp
        from candidate_subset_fresh [OF cand this] show False by simp
      qed
      with inml on thr show ?thesis by blast
    qed
    have a1: "\<forall>m \<in> set rs. m \<in> set ml
             \<and> (year m = ?v \<and> priority_of (best_of env ?a st) m = 1000
                 \<or> year m \<noteq> ?v \<and> ?on
                   \<and> fuzzy_threshold a \<le> priority_of (best_of env ?a st) m)"
    proof
      fix m assume "m \<in> set rs"
      then obtain p where "(m, p) \<in> set collected" "priority_of (merge_best collected) m = p"
        unfolding rs using ranked_member by blast
      with pair [of m p] show "m \<in> set ml
             \<and> (year m = ?v \<and> priority_of (best_of env ?a st) m = 1000
                 \<or> year m \<noteq> ?v \<and> ?on
                   \<and> fuzzy_threshold a \<le> priority_of (best_of env ?a st) m)"
        by (simp add: bo)
    qed
    have a2: "set rs \<subseteq> {m \<in> set ml. year m = ?v}" if "\<not> ?on"
      using a1 that by blast
    have sub_ms: "set ?ms \<subseteq> set collected"
      using shape by auto
    have a3: "ident ` {m \<in> set ml. year m = ?v} \<subseteq> ident ` set rs
                \<and> (distinct (map ident ml) \<longrightarrow> {m \<in> set ml. year m = ?v} \<subseteq> set rs)
                \<and> (\<not> ?on
                      \<longrightarrow> ident ` set rs = ident ` {m \<in> set ml. year m = ?v}
                        \<and> (distinct (map ident ml)
                              \<longrightarrow> set rs = {m \<in> set ml. year m = ?v}))"
      if unc: "max_results a = None \<or> max_results a = Some 0"
    proof -
      from unc have "max_results ?a = None \<or> max_results ?a = Some 0" by simp
      from uncapped_idents [OF this] have
        ids: "ident ` set rs = ident ` fst ` set collected"
        unfolding rs .
      have "fst ` set ?ms \<subseteq> fst ` set collected"
        using sub_ms by (rule image_mono)
      then have "set ?Y \<subseteq> fst ` set collected"
        by (simp only: fst_ms)
      then have "ident ` set ?Y \<subseteq> ident ` fst ` set collected"
        by (rule image_mono)
      then have b1: "ident ` {m \<in> set ml. year m = ?v} \<subseteq> ident ` set rs"
        by (simp only: ids Yset)
      have b2: "{m \<in> set ml. year m = ?v} \<subseteq> set rs" if dis: "distinct (map ident ml)"
      proof
        fix m assume m: "m \<in> {m \<in> set ml. year m = ?v}"
        then have "ident m \<in> ident ` set rs"
          using b1 by blast
        then obtain r where r: "r \<in> set rs" "ident r = ident m"
          by (auto simp: image_iff)
        with a1 have "r \<in> set ml" by blast
        moreover from m have "m \<in> set ml" by simp
        moreover from dis have "inj_on ident (set ml)" by (simp add: distinct_map)
        ultimately have "r = m" using r(2) by (auto dest: inj_onD)
        with r(1) show "m \<in> set rs" by simp
      qed
      have b3: "ident ` set rs = ident ` {m \<in> set ml. year m = ?v}
                        \<and> (distinct (map ident ml)
                              \<longrightarrow> set rs = {m \<in> set ml. year m = ?v})"
        if "\<not> ?on"
        using a2 [OF that] b1 b2 by blast
      from b1 b2 b3 show ?thesis by blast
    qed
    from a1 a2 a3 show ?thesis by blast
  qed
  from off ret main show ?thesis by blast
qed

theorem numeric_query_exact_witness:
  "find_matches env_off (default_args\<lparr>max_results := None, query_text := PStr ''2010''\<rparr>)
     sample_state = (Inr [inception, social_network], sample_state)
   \<and> set [inception, social_network]
       = {m \<in> set (movies sample_state). year m = digits_value ''2010''}
   \<and> digits_value ''2010'' = 2010
   \<and> fst (find_matches env_batch
            (default_args\<lparr>max_results := None, query_text := PStr ''2010''\<rparr>) sample_state)
       = Inr [inception, social_network, odyssey_two]
   \<and> {m \<in> set (movies sample_state). year m = digits_value ''2010''}
       \<subseteq> set [inception, social_network, odyssey_two]
   \<and> priority_of (best_of env_batch
         (default_args\<lparr>max_results := None, query_text := PStr ''2010''\<rparr>) sample_state)
         inception = 1000
   \<and> year odyssey_two \<noteq> digits_value ''2010''
   \<and> fuzzy_threshold (default_args\<lparr>max_results := None\<rparr>)
       \<le> priority_of (best_of env_batch
             (default_args\<lparr>max_results := None, query_text := PStr ''2010''\<rparr>) sample_state)
             odyssey_two"
proof -
  let ?a = "default_args\<lparr>max_results := None\<rparr>"
  let ?aq = "?a\<lparr>query_text := PStr ''2010''\<rparr>"
  let ?Y = "{m \<in> set (movies sample_state). year m = digits_value ''2010''}"
  have h1: "''2010'' \<noteq> []" by simp
  have h2: "list_all is_ascii_digit ''2010''"
    by (simp add: is_ascii_digit_def code_point_def)
  have h3: "length ''2010'' \<le> 100" by simp
  have h5: "apply_filters ?a (movies sample_state) = Inr (movies sample_state)"
    by (rule apply_filters_none) (simp_all add: default_args_def)
  have off: "\<not> (enable_fuzzy ?a \<and> has_rapidfuzz env_off)"
    by (simp add: env_off_def)
  have unc: "max_results ?a = None \<or> max_results ?a = Some 0"
    by simp
  have ev1: "fst (find_matches env_off ?aq sample_state) = Inr [inception, social_network]"
    by code_simp
  have ev2: "fst (find_matches env_batch ?aq sample_state)
      = Inr [inception, social_network, odyssey_two]"
    by code_simp
  have dis: "distinct (map ident (movies sample_state))"
    by code_simp
  have val: "digits_value ''2010'' = 2010"
    by (simp add: digits_value_def code_point_def)
  have yi: "year inception = digits_value ''2010''"
    by (simp add: val inception_def)
  have yo: "year odyssey_two \<noteq> digits_value ''2010''"
    by (simp add: val odyssey_two_def)
  note t1 = numeric_query_exact [where env = env_off, OF h1 h2 h3 h5]
  note t2 = numeric_query_exact [where env = env_batch, OF h1 h2 h3 h5]
  from mp [OF conjunct1 [OF t1] off] obtain rs where
    rs: "find_matches env_off ?aq sample_state = (Inr rs, sample_state)"
    by (rule exE)
  with ev1 have "rs = [inception, social_network]" by simp
  with rs have c1: "find_matches env_off ?aq sample_state
      = (Inr [inception, social_network], sample_state)"
    by simp
  note m1 = mp [OF spec [OF conjunct2 [OF conjunct2 [OF t1]]] ev1]
  note u1 = mp [OF conjunct2 [OF conjunct2 [OF m1]] unc]
  note v1 = mp [OF conjunct2 [OF conjunct2 [OF u1]] off]
  have c2: "set [inception, social_network] = ?Y"
    using conjunct2 [OF v1] dis by (rule mp)
  note m2 = mp [OF spec [OF conjunct2 [OF conjunct2 [OF t2]]] ev2]
  note u2 = mp [OF conjunct2 [OF conjunct2 [OF m2]] unc]
  have c3: "?Y \<subseteq> set [inception, social_network, odyssey_two]"
    using conjunct1 [OF conjunct2 [OF u2]] dis by (rule mp)
  note b = conjunct1 [OF m2]
  from bspec [OF b, of inception] yi
  have c4: "priority_of (best_of env_batch ?aq sample_state) inception = 1000"
    by simp
  from bspec [OF b, of odyssey_two] yo
  have c5: "fuzzy_threshold ?a \<le> priority_of (best_of env_batch ?aq sample_state) odyssey_two"
    by simp
  show ?thesis
    by (intro conjI) (rule c1 c2 val ev2 c3 c4 yo c5)+
qed

subsection \<open>The fuzzy threshold\<close>

text \<open>
  Claim C7. Let \<open>find_matches\<close> run the fuzzy stage (the query is not empty,
  \<open>enable_fuzzy\<close> is set and RapidFuzz is installed) and return. A candidate is
  a record of the capped subset of the filtered records that no tier matched.
  Without \<open>rprocess\<close>: a candidate whose score is at least \<open>fuzzy_threshold\<close>
  gets an entry in the dictionary \<open>best\<close> with a priority of at least
  \<open>int(score)\<close>, and without a cap its identity is returned; when no two
  filtered records share an identity its priority is \<open>int(score)\<close>, which is
  \<open>fuzzy_threshold\<close> itself for a score equal to the threshold, and without a
  cap the candidate is returned. A candidate whose score is below the threshold,
  such as \<open>fuzzy_threshold - 1\<close>, is not returned. With \<open>rprocess\<close>: the
  candidate of every row of \<open>extract\<close> whose score is at least the threshold gets
  such an entry and, without a cap, its identity is returned; a returned
  candidate stems from a row that clears the threshold, with \<open>int(score)\<close> as
  priority. Every returned record is either a tier match with priority 1000, 900
  or 800, or a candidate with a priority of at least \<open>fuzzy_threshold\<close> that,
  for a scorer keeping to the range 0 to 100, lies in that range, below 800.
\<close>

theorem fuzzy_threshold_boundary:
  assumes "query_lower (query_text a) = Inr q" and "q \<noteq> []"
    and "enable_fuzzy a" and "has_rapidfuzz env"
    and "apply_filters a (movies st) = Inr ml"
    and "text_matches q (filters_given a) ml = Inr ms"
    and "fst (find_matches env a st) = Inr rs"
  shows "(\<forall>m. \<not> has_process env \<and> m \<in> set (candidate_subset ml ms)
              \<and> of_int (fuzzy_threshold a) \<le> score_or_zero env q m \<longrightarrow>
            (\<exists>pm. map_of (best_of env a st) (ident m) = Some pm
                  \<and> py_int (score_or_zero env q m) \<le> fst pm)
            \<and> (max_results a = None \<or> max_results a = Some 0 \<longrightarrow> ident m \<in> ident ` set rs)
            \<and> (distinct (map ident ml) \<longrightarrow>
                  priority_of (best_of env a st) m = py_int (score_or_zero env q m)
                  \<and> (score_or_zero env q m = of_int (fuzzy_threshold a)
                        \<longrightarrow> priority_of (best_of env a st) m = fuzzy_threshold a)
                  \<and> (max_results a = None \<or> max_results a = Some 0 \<longrightarrow> m \<in> set rs)))
     \<and> (\<forall>m. \<not> has_process env \<and> m \<in> set (candidate_subset ml ms)
              \<and> score_or_zero env q m < of_int (fuzzy_threshold a) \<longrightarrow> m \<notin> set rs)
     \<and> (\<forall>rows c s i. has_process env
              \<and> process_extract env q (map search_text_of (candidate_subset ml ms)) = Some rows
              \<and> (c, s, i) \<in> set rows \<and> of_int (fuzzy_threshold a) \<le> s \<longrightarrow>
            i < length (candidate_subset ml ms)
            \<and> (\<exists>pm. map_of (best_of env a st) (ident (candidate_subset ml ms ! i)) = Some pm
                  \<and> py_int s \<le> fst pm)
            \<and> (max_results a = None \<or> max_results a = Some 0
                  \<longrightarrow> ident (candidate_subset ml ms ! i) \<in> ident ` set rs))
     \<and> (\<forall>r. has_process env \<and> r \<in> set rs \<and> r \<in> set (candidate_subset ml ms) \<longrightarrow>
            (\<exists>rows c s i. process_extract env q (map search_text_of (candidate_subset ml ms))
                  = Some rows
               \<and> (c, s, i) \<in> set rows \<and> of_int (fuzzy_threshold a) \<le> s
               \<and> candidate_subset ml ms ! i = r
               \<and> priority_of (best_of env a st) r = py_int s))
     \<and> (\<forall>r \<in> set rs.
            ((\<exists>p. (r, p) \<in> set ms)
               \<and> (priority_of (best_of env a st) r = 1000 \<or> priority_of (best_of env a st) r = 900
                    \<or> priority_of (best_of env a st) r = 800))
            \<or> (r \<in> set (candidate_subset ml ms)
               \<and> fuzzy_threshold a \<le> priority_of (best_of env a st) r
               \<and> (scorer_in_range env \<longrightarrow> 0 \<le> priority_of (best_of env a st) r
                     \<and> priority_of (best_of env a st) r \<le> 100
                     \<and> priority_of (best_of env a st) r < 800)))"
proof -
  let ?cs = "candidate_subset ml ms"
  let ?thr = "fuzzy_threshold a"
  let ?best = "best_of env a st"
  let ?unc = "max_results a = None \<or> max_results a = Some 0"
  from find_matches_anatomy [OF assms(1,5,7)] obtain collected lg where
    cm: "collect_matches env a q ml = (Inr collected, lg)" and
    bo: "?best = merge_best collected" and
    rs: "rs = cap (max_results a) (rank (sort_by a) (merge_best collected)
               (map (\<lambda>kv. snd (snd kv)) (merge_best collected)))"
    by blast
  from collect_matches_Inr [OF cm] assms(2,3,4,6) obtain fm where
    fz: "fuzzy_matches env q ?thr ml ms = (Inr fm, lg)" and
    col: "collected = ms @ fm"
    by auto
  have inml: "m \<in> set ml" if "(m, p) \<in> set collected" for m p
    using collect_matches_subset [OF cm that] .
  have slot: "\<exists>pm. map_of ?best (ident m) = Some pm \<and> p \<le> fst pm"
    if "(m, p) \<in> set fm" for m p
  proof -
    from that have "(m, p) \<in> set collected" by (simp add: col)
    from merged_entry [OF this] show ?thesis unfolding bo by blast
  qed
  have returned: "ident m \<in> ident ` set rs" if "(m, p) \<in> set fm" and "max_results a = None \<or> max_results a = Some 0" for m p
  proof -
    from that(1) have "(m, p) \<in> set collected" by (simp add: col)
    then have "ident (fst (m, p)) \<in> ident ` fst ` set collected"
      by (intro imageI)
    then show ?thesis
      unfolding rs uncapped_idents [OF that(2)] by simp
  qed
  have origin: "\<exists>p. (r, p) \<in> set collected \<and> priority_of ?best r = p" if "r \<in> set rs" for r
    using that unfolding rs bo by (rule ranked_member)
  have fresh: "(m, p) \<notin> set ms" if "m \<in> set ?cs" for m p
    using candidate_subset_fresh [OF that, of m p] by blast
  have tier_not_cand: "m \<notin> set ?cs" if "(m, p) \<in> set ms" for m p
    using fresh that by blast
  have single: "(\<exists>pm. map_of ?best (ident m) = Some pm
                  \<and> py_int (score_or_zero env q m) \<le> fst pm)
            \<and> (?unc \<longrightarrow> ident m \<in> ident ` set rs)
            \<and> (distinct (map ident ml) \<longrightarrow>
                  priority_of ?best m = py_int (score_or_zero env q m)
                  \<and> (score_or_zero env q m = of_int ?thr \<longrightarrow> priority_of ?best m = ?thr)
                  \<and> (?unc \<longrightarrow> m \<in> set rs))"
    if h: "\<not> has_process env \<and> m \<in> set ?cs \<and> of_int ?thr \<le> score_or_zero env q m" for m
  proof -
    let ?p = "py_int (score_or_zero env q m)"
    from h have np: "\<not> has_process env" and mc: "m \<in> set ?cs" by blast+
    from h have "(m, ?p) \<in> set fm"
      unfolding fuzzy_matches_fallback [OF fz np] by blast
    note infm = this
    have dis: "priority_of ?best m = ?p
                  \<and> (score_or_zero env q m = of_int ?thr \<longrightarrow> priority_of ?best m = ?thr)
                  \<and> (?unc \<longrightarrow> m \<in> set rs)"
      if d: "distinct (map ident ml)"
    proof -
      from d have inj: "inj_on ident (set ml)" by (simp add: distinct_map)
      from slot [OF infm] obtain pm where pm: "map_of ?best (ident m) = Some pm"
        by blast
      then have "(ident m, (fst pm, snd pm)) \<in> set (merge_best collected)"
        unfolding bo by (auto dest: map_of_SomeD)
      then have e: "ident (snd pm) = ident m" "(snd pm, fst pm) \<in> set collected"
        using merge_best_sound by blast+
      from e(2) have "snd pm \<in> set ml" by (rule inml)
      moreover have "m \<in> set ml" using mc by (rule candidate_subset_subset)
      ultimately have same: "snd pm = m" using inj e(1) by (auto dest: inj_onD)
      with e(2) have "(m, fst pm) \<in> set collected" by simp
      with fresh [OF mc] have "(m, fst pm) \<in> set fm" by (simp add: col)
      then have "fst pm = ?p"
        unfolding fuzzy_matches_fallback [OF fz np] by auto
      with pm have prio: "priority_of ?best m = ?p"
        by (simp add: priority_of_def)
      have "m \<in> set rs" if "max_results a = None \<or> max_results a = Some 0"
      proof -
        from returned [OF infm that] obtain r where r: "r \<in> set rs" "ident r = ident m"
          by (auto simp: image_iff)
        from origin [OF r(1)] have "r \<in> set ml" using inml by blast
        with \<open>m \<in> set ml\<close> inj r(2) have "r = m" by (auto dest: inj_onD)
        with r(1) show ?thesis by simp
      qed
      with prio show ?thesis by (auto simp: py_int_of_int)
    qed
    from slot [OF infm] returned [OF infm] dis show ?thesis by blast
  qed
  have single_out: "m \<notin> set rs"
    if h: "\<not> has_process env \<and> m \<in> set ?cs \<and> score_or_zero env q m < of_int ?thr" for m
  proof
    assume "m \<in> set rs"
    from origin [OF this] obtain p where "(m, p) \<in> set collected" by blast
    with h fresh have "(m, p) \<in> set fm" by (simp add: col)
    with h have "of_int ?thr \<le> score_or_zero env q m"
      unfolding fuzzy_matches_fallback [OF fz conjunct1 [OF h]] by auto
    with h show False by simp
  qed
  have batch: "i < length ?cs
            \<and> (\<exists>pm. map_of ?best (ident (?cs ! i)) = Some pm \<and> py_int s \<le> fst pm)
            \<and> (?unc \<longrightarrow> ident (?cs ! i) \<in> ident ` set rs)"
    if h: "has_process env \<and> process_extract env q (map search_text_of ?cs) = Some rows
              \<and> (c, s, i) \<in> set rows \<and> of_int ?thr \<le> s" for rows c s i
  proof -
    from h have hp: "has_process env"
      and pe: "process_extract env q (map search_text_of ?cs) = Some rows"
      and row: "(c, s, i) \<in> set rows" "of_int ?thr \<le> s"
      by blast+
    from row have "(c, s, i) \<in> {row \<in> set rows. of_int ?thr \<le> fst (snd row)}" by simp
    then have "(?cs ! snd (snd (c, s, i)), py_int (fst (snd (c, s, i)))) \<in> set fm"
      unfolding fuzzy_matches_batch(1) [OF fz hp pe] by (rule imageI)
    then have infm: "(?cs ! i, py_int s) \<in> set fm" by simp
    from fuzzy_matches_batch(2) [OF fz hp pe] row have "i < length ?cs" by blast
    with slot [OF infm] returned [OF infm] show ?thesis by blast
  qed
  have batch_back: "\<exists>rows c s i. process_extract env q (map search_text_of ?cs) = Some rows
               \<and> (c, s, i) \<in> set rows \<and> of_int ?thr \<le> s \<and> ?cs ! i = r
               \<and> priority_of ?best r = py_int s"
    if h: "has_process env \<and> r \<in> set rs \<and> r \<in> set ?cs" for r
  proof -
    from h have hp: "has_process env" and rr: "r \<in> set rs" and rc: "r \<in> set ?cs" by blast+
    from origin [OF rr] obtain p where p: "(r, p) \<in> set collected" "priority_of ?best r = p"
      by blast
    with fresh [OF rc] have infm: "(r, p) \<in> set fm" by (simp add: col)
    show ?thesis
    proof (cases "process_extract env q (map search_text_of ?cs)")
      case None
      from fuzzy_matches_no_rows [OF fz hp None] infm show ?thesis by simp
    next
      case (Some rows)
      from infm obtain row where "row \<in> set rows" "of_int ?thr \<le> fst (snd row)"
        "r = ?cs ! snd (snd row)" "p = py_int (fst (snd row))"
        unfolding fuzzy_matches_batch(1) [OF fz hp Some] by auto
      then have "(fst row, fst (snd row), snd (snd row)) \<in> set rows
          \<and> of_int ?thr \<le> fst (snd row) \<and> ?cs ! snd (snd row) = r
          \<and> priority_of ?best r = py_int (fst (snd row))"
        using p(2) by simp
      with Some show ?thesis by blast
    qed
  qed
  have bands: "((\<exists>p. (r, p) \<in> set ms)
               \<and> (priority_of ?best r = 1000 \<or> priority_of ?best r = 900
                    \<or> priority_of ?best r = 800))
            \<or> (r \<in> set ?cs \<and> ?thr \<le> priority_of ?best r
               \<and> (scorer_in_range env \<longrightarrow> 0 \<le> priority_of ?best r
                     \<and> priority_of ?best r \<le> 100 \<and> priority_of ?best r < 800))"
    if "r \<in> set rs" for r
  proof -
    from origin [OF that] obtain p where p: "(r, p) \<in> set collected" "priority_of ?best r = p"
      by blast
    show ?thesis
    proof (cases "(r, p) \<in> set ms")
      case True
      from text_matches_priority [OF assms(6) True] True p(2) show ?thesis by auto
    next
      case False
      with p(1) have "(r, p) \<in> set fm" by (simp add: col)
      from fuzzy_matches_member [OF fz this] p(2) show ?thesis by auto
    qed
  qed
  show ?thesis
    using single single_out batch batch_back bands
    by (intro conjI allI impI ballI) blast+
qed

theorem fuzzy_threshold_boundary_witness:
  "fst (find_matches env_fuzz
          (default_args\<lparr>max_results := None, query_text := PStr ''tox''\<rparr>) sample_state)
     = Inr [toy_story]
   \<and> fuzzy_threshold (default_args\<lparr>max_results := None, query_text := PStr ''tox''\<rparr>) = 70
   \<and> score_or_zero env_fuzz ''tox'' toy_story = 70
   \<and> priority_of (best_of env_fuzz
         (default_args\<lparr>max_results := None, query_text := PStr ''tox''\<rparr>) sample_state)
         toy_story = 70
   \<and> toy_story \<in> set [toy_story]
   \<and> score_or_zero env_fuzz ''tox'' inception = 69
   \<and> inception \<notin> set [toy_story]
   \<and> fst (find_matches env_batch
          (default_args\<lparr>max_results := None, query_text := PStr ''tox''\<rparr>) sample_state)
     = Inr [toy_story]
   \<and> (\<exists>rows c s i.
         process_extract env_batch ''tox''
             (map search_text_of (candidate_subset (movies sample_state) [])) = Some rows
         \<and> (c, s, i) \<in> set rows \<and> 70 \<le> s
         \<and> candidate_subset (movies sample_state) [] ! i = toy_story
         \<and> priority_of (best_of env_batch
               (default_args\<lparr>max_results := None, query_text := PStr ''tox''\<rparr>) sample_state)
               toy_story = py_int s)"
proof -
  let ?a = "default_args\<lparr>max_results := None, query_text := PStr ''tox''\<rparr>"
  let ?ml = "movies sample_state"
  have q: "query_lower (query_text ?a) = Inr ''tox''"
    by code_simp
  have ne: "''tox'' \<noteq> []"
    by simp
  have ef: "enable_fuzzy ?a"
    by (simp add: default_args_def)
  have thr: "fuzzy_threshold ?a = 70"
    by (simp add: default_args_def DEFAULT_FUZZY_THRESHOLD_def)
  have r1: "has_rapidfuzz env_fuzz" and np: "\<not> has_process env_fuzz"
    by (simp_all add: env_fuzz_def)
  have r2: "has_rapidfuzz env_batch" and hp: "has_process env_batch"
    by (simp_all add: env_batch_def)
  have f: "apply_filters ?a ?ml = Inr ?ml"
    by (rule apply_filters_none) (simp_all add: default_args_def)
  have tm: "text_matches ''tox'' (filters_given ?a) ?ml = Inr []"
    by code_simp
  have ev1: "fst (find_matches env_fuzz ?a sample_state) = Inr [toy_story]"
    by code_simp
  have ev2: "fst (find_matches env_batch ?a sample_state) = Inr [toy_story]"
    by code_simp
  have ct: "toy_story \<in> set (candidate_subset ?ml [])"
    by code_simp
  have ci: "inception \<in> set (candidate_subset ?ml [])"
    by code_simp
  have s1: "score_or_zero env_fuzz ''tox'' toy_story = 70"
    by code_simp
  have s2: "score_or_zero env_fuzz ''tox'' inception = 69"
    by code_simp
  have dis: "distinct (map ident ?ml)"
    by code_simp
  have unc: "max_results ?a = None \<or> max_results ?a = Some 0"
    by simp
  note t1 = fuzzy_threshold_boundary [OF q ne ef r1 f tm ev1]
  note t2 = fuzzy_threshold_boundary [OF q ne ef r2 f tm ev2]
  have le: "of_int (fuzzy_threshold ?a) \<le> score_or_zero env_fuzz ''tox'' toy_story"
    by (simp add: thr s1)
  have eq: "score_or_zero env_fuzz ''tox'' toy_story = of_int (fuzzy_threshold ?a)"
    by (simp add: thr s1)
  have lt: "score_or_zero env_fuzz ''tox'' inception < of_int (fuzzy_threshold ?a)"
    by (simp add: thr s2)
  note j = mp [OF spec [OF conjunct1 [OF t1], of toy_story] conjI [OF np conjI [OF ct le]]]
  from conjunct2 [OF conjunct2 [OF j]]
  have k: "distinct (map ident ?ml) \<longrightarrow>
      priority_of (best_of env_fuzz ?a sample_state) toy_story
        = py_int (score_or_zero env_fuzz ''tox'' toy_story)
      \<and> (score_or_zero env_fuzz ''tox'' toy_story = of_int (fuzzy_threshold ?a)
            \<longrightarrow> priority_of (best_of env_fuzz ?a sample_state) toy_story = fuzzy_threshold ?a)
      \<and> (max_results ?a = None \<or> max_results ?a = Some 0 \<longrightarrow> toy_story \<in> set [toy_story])"
    .
  note k' = mp [OF k dis]
  have "priority_of (best_of env_fuzz ?a sample_state) toy_story = fuzzy_threshold ?a"
    using conjunct1 [OF conjunct2 [OF k']] eq by (rule mp)
  then have c1: "priority_of (best_of env_fuzz ?a sample_state) toy_story = 70"
    by (simp only: thr)
  have c2: "toy_story \<in> set [toy_story]"
    using conjunct2 [OF conjunct2 [OF k']] unc by (rule mp)
  have c3: "inception \<notin> set [toy_story]"
    using spec [OF conjunct1 [OF conjunct2 [OF t1]], of inception]
      conjI [OF np conjI [OF ci lt]]
    by (rule mp)
  have in2: "toy_story \<in> set [toy_story]"
    by simp
  from mp [OF spec [OF conjunct1 [OF conjunct2 [OF conjunct2 [OF conjunct2 [OF t2]]]],
        of toy_story] conjI [OF hp conjI [OF in2 ct]]]
  have "\<exists>rows c s i.
         process_extract env_batch ''tox'' (map search_text_of (candidate_subset ?ml [])) = Some rows
         \<and> (c, s, i) \<in> set rows \<and> of_int (fuzzy_threshold ?a) \<le> s
         \<and> candidate_subset ?ml [] ! i = toy_story
         \<and> priority_of (best_of env_batch ?a sample_state) toy_story = py_int s"
    .
  then have c4: "\<exists>rows c s i.
         process_extract env_batch ''tox'' (map search_text_of (candidate_subset ?ml [])) = Some rows
         \<and> (c, s, i) \<in> set rows \<and> 70 \<le> s
         \<and> candidate_subset ?ml [] ! i = toy_story
         \<and> priority_of (best_of env_batch ?a sample_state) toy_story = py_int s"
    by (simp add: thr)
  show ?thesis
    by (intro conjI) (rule ev1 thr s1 c1 c2 s2 c3 ev2 c4)+
qed

text \<open>
  The cap of \<open>max_results\<close> applies after the fuzzy stage: of two candidates that
  score exactly the threshold, \<open>max_results=1\<close> returns the first of the ranking
  only.
\<close>

lemma fuzzy_threshold_then_cap:
  "fst (find_matches env_fuzz
          (default_args\<lparr>max_results := Some 1, query_text := PStr ''indiex''\<rparr>) sample_state)
     = Inr [golden_dawn]
   \<and> fst (find_matches env_fuzz
          (default_args\<lparr>max_results := None, query_text := PStr ''indiex''\<rparr>) sample_state)
     = Inr [golden_dawn, silent_dawn]
   \<and> score_or_zero env_fuzz ''indiex'' silent_dawn = 70"
  by code_simp

end
